theory Spec2Isabelle
  imports Main "HOL-Library.AList"
begin

section \<open>Python values: JSON documents and the object heap\<close>

text \<open>
  The batch pose-transfer orchestration of \<^verbatim>\<open>app.py\<close>: \<^verbatim>\<open>approve_edit\<close> and, for the download
  path it is compared with, \<^verbatim>\<open>api_pose_transfer\<close>.

  A JSON document is a tree. A float is carried as the text \<^verbatim>\<open>json.dumps\<close> writes for it, which
  \<^verbatim>\<open>json.loads\<close> reads back to the same float. A mapping lists its members in insertion
  order. Python lists and dicts are objects in a heap, so a value is an atom or a reference;
  \<^verbatim>\<open>json.loads\<close> allocates a fresh object for every array and mapping of the document, and
  \<^verbatim>\<open>json.dumps\<close> reads the objects back, refusing a circular reference. Exceptions are values;
  \<open>exn_str\<close> is \<^verbatim>\<open>str(e)\<close>, with the message texts of CPython 3.11.
\<close>

datatype atom = ANone | ABool bool | AInt int | AFloat string | AStr string

datatype json = JAtom atom | JArr "json list" | JObj "(string \<times> json) list"

type_synonym addr = nat

datatype pyval = VAtom atom | VRef addr

datatype pyobj = OList "pyval list" | ODict "(string \<times> pyval) list"

type_synonym heap = "pyobj list"

datatype exn = KeyError string | TypeError string | IndexError string | ValueError string
  | ExternalError string

fun loads :: "heap \<Rightarrow> json \<Rightarrow> heap \<times> pyval"
and loads_list :: "heap \<Rightarrow> json list \<Rightarrow> heap \<times> pyval list"
and loads_fields :: "heap \<Rightarrow> (string \<times> json) list \<Rightarrow> heap \<times> (string \<times> pyval) list"
where
  "loads h (JAtom a) = (h, VAtom a)"
| "loads h (JArr js) = (case loads_list h js of (h', vs) \<Rightarrow> (h' @ [OList vs], VRef (length h')))"
| "loads h (JObj kvs) = (case loads_fields h kvs of (h', fs) \<Rightarrow> (h' @ [ODict fs], VRef (length h')))"
| "loads_list h [] = (h, [])"
| "loads_list h (j # js) =
     (case loads h j of (h1, v) \<Rightarrow> case loads_list h1 js of (h2, vs) \<Rightarrow> (h2, v # vs))"
| "loads_fields h [] = (h, [])"
| "loads_fields h ((k, j) # kvs) =
     (case loads h j of (h1, v) \<Rightarrow> case loads_fields h1 kvs of (h2, fs) \<Rightarrow> (h2, (k, v) # fs))"

fun collect :: "(exn + 'a) list \<Rightarrow> exn + 'a list" where
  "collect [] = Inr []"
| "collect (Inl e # rs) = Inl e"
| "collect (Inr x # rs) = (case collect rs of Inl e \<Rightarrow> Inl e | Inr xs \<Rightarrow> Inr (x # xs))"

fun dumps :: "nat \<Rightarrow> heap \<Rightarrow> pyval \<Rightarrow> exn + json" where
  "dumps n h (VAtom a) = Inr (JAtom a)"
| "dumps 0 h (VRef a) = Inl (ValueError ''Circular reference detected'')"
| "dumps (Suc n) h (VRef a) =
     (if a < length h then
        (case h ! a of
           OList vs \<Rightarrow>
             (case collect (map (dumps n h) vs) of Inl e \<Rightarrow> Inl e | Inr js \<Rightarrow> Inr (JArr js))
         | ODict fs \<Rightarrow>
             (case collect (map (\<lambda>(k, v). dumps n h v) fs) of
                Inl e \<Rightarrow> Inl e
              | Inr js \<Rightarrow> Inr (JObj (zip (map fst fs) js))))
      else Inl (ValueError ''Circular reference detected''))"


fun type_name :: "atom \<Rightarrow> string" where
  "type_name ANone = ''NoneType''"
| "type_name (ABool b) = ''bool''"
| "type_name (AInt i) = ''int''"
| "type_name (AFloat f) = ''float''"
| "type_name (AStr s) = ''str''"

definition quoted :: "string \<Rightarrow> string" where
  "quoted s = [CHR 0x27] @ s @ [CHR 0x27]"

definition list_index_msg :: string where
  "list_index_msg = ''list indices must be integers or slices, not str''"

fun subscript_msg :: "atom \<Rightarrow> string" where
  "subscript_msg (AStr s) = ''string indices must be integers, not '' @ quoted ''str''"
| "subscript_msg a = quoted (type_name a) @ '' object is not subscriptable''"

definition assign_msg :: "atom \<Rightarrow> string" where
  "assign_msg a = quoted (type_name a) @ '' object does not support item assignment''"

definition dangling :: exn where
  "dangling = ValueError ''dangling reference''"

definition deref :: "heap \<Rightarrow> addr \<Rightarrow> pyobj option" where
  "deref h a = (if a < length h then Some (h ! a) else None)"

fun getitem :: "heap \<Rightarrow> pyval \<Rightarrow> string \<Rightarrow> exn + pyval" where
  "getitem h (VAtom a) k = Inl (TypeError (subscript_msg a))"
| "getitem h (VRef a) k =
     (case deref h a of
        None \<Rightarrow> Inl dangling
      | Some (OList vs) \<Rightarrow> Inl (TypeError list_index_msg)
      | Some (ODict fs) \<Rightarrow> (case map_of fs k of None \<Rightarrow> Inl (KeyError k) | Some v \<Rightarrow> Inr v))"

fun setitem :: "heap \<Rightarrow> pyval \<Rightarrow> string \<Rightarrow> pyval \<Rightarrow> exn + heap" where
  "setitem h (VAtom a) k x = Inl (TypeError (assign_msg a))"
| "setitem h (VRef a) k x =
     (case deref h a of
        None \<Rightarrow> Inl dangling
      | Some (OList vs) \<Rightarrow> Inl (TypeError list_index_msg)
      | Some (ODict fs) \<Rightarrow> Inr (h[a := ODict (AList.update k x fs)]))"

definition bind_slot :: "heap \<Rightarrow> pyval \<Rightarrow> string \<Rightarrow> string \<Rightarrow> atom \<Rightarrow> exn + heap" where
  "bind_slot h workflow node slot x =
     (case getitem h workflow node of
        Inl e \<Rightarrow> Inl e
      | Inr n \<Rightarrow>
          (case getitem h n ''inputs'' of
             Inl e \<Rightarrow> Inl e
           | Inr i \<Rightarrow> setitem h i slot (VAtom x)))"

fun jget :: "json \<Rightarrow> string \<Rightarrow> exn + json" where
  "jget (JAtom a) k = Inl (TypeError (subscript_msg a))"
| "jget (JArr js) k = Inl (TypeError list_index_msg)"
| "jget (JObj kvs) k = (case map_of kvs k of None \<Rightarrow> Inl (KeyError k) | Some j \<Rightarrow> Inr j)"

fun jset :: "json \<Rightarrow> string \<Rightarrow> json \<Rightarrow> exn + json" where
  "jset (JAtom a) k x = Inl (TypeError (assign_msg a))"
| "jset (JArr js) k x = Inl (TypeError list_index_msg)"
| "jset (JObj kvs) k x = Inr (JObj (AList.update k x kvs))"

definition jbind :: "json \<Rightarrow> string \<Rightarrow> string \<Rightarrow> atom \<Rightarrow> exn + json" where
  "jbind j node slot x =
     (case jget j node of
        Inl e \<Rightarrow> Inl e
      | Inr n \<Rightarrow>
          (case jget n ''inputs'' of
             Inl e \<Rightarrow> Inl e
           | Inr i \<Rightarrow>
               (case jset i slot (JAtom x) of
                  Inl e \<Rightarrow> Inl e
                | Inr i' \<Rightarrow>
                    (case jset n ''inputs'' i' of
                       Inl e \<Rightarrow> Inl e
                     | Inr n' \<Rightarrow> jset j node n'))))"

inductive rep :: "heap \<Rightarrow> nat \<Rightarrow> nat \<Rightarrow> pyval \<Rightarrow> json \<Rightarrow> bool"
  and rep_list :: "heap \<Rightarrow> nat \<Rightarrow> nat \<Rightarrow> pyval list \<Rightarrow> json list \<Rightarrow> bool"
  and rep_fields :: "heap \<Rightarrow> nat \<Rightarrow> nat \<Rightarrow> (string \<times> pyval) list \<Rightarrow> (string \<times> json) list \<Rightarrow> bool"
where
  rep_atom: "lo \<le> hi \<Longrightarrow> rep h lo hi (VAtom a) (JAtom a)"
| rep_arr: "rep_list h lo a vs js \<Longrightarrow> a < length h \<Longrightarrow> h ! a = OList vs
     \<Longrightarrow> rep h lo (Suc a) (VRef a) (JArr js)"
| rep_obj: "rep_fields h lo a fs kvs \<Longrightarrow> a < length h \<Longrightarrow> h ! a = ODict fs
     \<Longrightarrow> rep h lo (Suc a) (VRef a) (JObj kvs)"
| rep_nil: "lo \<le> hi \<Longrightarrow> rep_list h lo hi [] []"
| rep_cons: "rep h lo mid v j \<Longrightarrow> rep_list h mid hi vs js
     \<Longrightarrow> rep_list h lo hi (v # vs) (j # js)"
| repf_nil: "lo \<le> hi \<Longrightarrow> rep_fields h lo hi [] []"
| repf_cons: "rep h lo mid v j \<Longrightarrow> rep_fields h mid hi fs kvs
     \<Longrightarrow> rep_fields h lo hi ((k, v) # fs) ((k, j) # kvs)"

section \<open>The datastore, the Render Host and the process output\<close>

text \<open>
  Rows of the three tables that \<^verbatim>\<open>approve_edit\<close> reads or writes (\<^verbatim>\<open>setup_database.py\<close>);
  columns the function never touches are left out. A nullable column is an \<open>option\<close>.
\<close>

type_synonym bytes = string

record edit_test =
  et_id :: string
  et_carousel_id :: string
  et_image_id :: string
  et_edit_prompt :: string
  et_nanabana_result_url :: "string option"
  et_status :: string
  et_approved_at :: "string option"
  et_notes :: "string option"

record carousel_image =
  ci_id :: string
  ci_carousel_id :: string
  ci_image_url :: string
  ci_image_order :: int
  ci_local_path :: "string option"

record batch =
  b_id :: string
  b_edit_test_id :: string
  b_carousel_id :: string
  b_status :: string
  b_images_to_process :: json
  b_completed_images :: "string list option"
  b_workflow_name :: string
  b_completed_at :: "string option"
  b_error_message :: "string option"

text \<open>One constructor for each \<^verbatim>\<open>print\<close> of \<^verbatim>\<open>approve_edit\<close> and \<^verbatim>\<open>api_pose_transfer\<close>,
  carrying the values the f-string formats.\<close>

datatype log_line =
    LogDownloadingModel
  | LogModelUploaded string
  | LogDownloadingPoses nat
  | LogPosesUploaded string
  | LogTriggering nat
  | LogPoseTriggered nat nat string
  | LogAllTriggered "string list"
  | LogWaiting
  | LogPolling nat nat string
  | LogAttempt nat nat nat
  | LogPollError exn
  | LogTimedOut nat
  | LogPoseComplete nat
  | LogDownloading string
  | LogStored string
  | LogDownloadError nat exn
  | LogBatchComplete nat nat
  | LogBatchError exn
  | LogPtDownloadingModel string
  | LogPtDownloadingPose string
  | LogPtTriggered "string option"
  | LogPtWaiting
  | LogPtAttempt nat nat
  | LogPtComplete string
  | LogPtDownloaded string
  | LogPtUploaded string
  | LogPtError exn

text \<open>
  The state a run can change: the tables, the files and folders created on the Render Host,
  the job graphs posted to it, the output files requested from it, the objects stored in the
  bucket, the seconds spent in \<^verbatim>\<open>time.sleep\<close>, the seconds the completion poller of the batch
  run spends in its status queries, and the lines printed.
\<close>

record world =
  edit_tests :: "edit_test list"
  carousel_images :: "carousel_image list"
  comfyui_batches :: "batch list"
  render_input :: "(string \<times> bytes) list"
  render_dirs :: "string list"
  posted :: "json list"
  view_requests :: "string list"
  scp_fetched :: "string list"
  bucket :: "(string \<times> bytes) list"
  slept :: nat
  waited :: nat
  stdout :: "log_line list"

text \<open>
  What the submission call of one item comes to, as the code distinguishes it (lines 328-334):
  \<open>PostRaises\<close> when \<^verbatim>\<open>requests.post\<close>, \<^verbatim>\<open>raise_for_status\<close>, \<^verbatim>\<open>response.json()\<close> or the
  membership test on a result that is no mapping raises; \<open>PostNoId\<close> when the result has no
  \<^verbatim>\<open>prompt_id\<close>; \<open>PostId\<close> with the job identifier otherwise.
\<close>

datatype submit_outcome = PostRaises exn | PostNoId | PostId string

text \<open>
  The history document of one status query: for each job identifier the truth value of
  \<^verbatim>\<open>.get('status', {}).get('completed')\<close> and the output nodes in order, each with the
  filenames of its \<^verbatim>\<open>images\<close> entry when it has one. \<open>HistoryRaises\<close> stands for an exception
  of the remote command, of \<^verbatim>\<open>json.loads\<close> or of a document of another shape.
\<close>

record history_entry =
  he_completed :: bool
  he_outputs :: "(string \<times> string list option) list"

datatype history_outcome = HistoryRaises exn | HistoryData "(string \<times> history_entry) list"

datatype poll_result = Pending | Done "string option" | Failed exn

text \<open>
  The outcome of every call that leaves the process, one field for each call site, indexed by
  the loop position (and attempt number) at which the call is made. The theorems hold for
  every such environment. \<open>history_seconds\<close> is the time the remote command of a status query
  takes to end (line 362); \<open>get_history\<close> is what the query comes to.
\<close>

record env =
  now :: "nat \<Rightarrow> string"
  new_batch_id :: string
  uuid_hex8 :: "nat \<Rightarrow> string"
  get_model :: "string \<Rightarrow> exn + bytes"
  scp_model :: "string \<Rightarrow> exn option"
  ssh_mkdir :: "string \<Rightarrow> exn option"
  get_pose :: "nat \<Rightarrow> string \<Rightarrow> exn + bytes"
  scp_pose :: "nat \<Rightarrow> string \<Rightarrow> exn option"
  load_template :: "exn + json"
  randint :: "nat \<Rightarrow> int"
  post_prompt :: "nat \<Rightarrow> submit_outcome"
  get_history :: "nat \<Rightarrow> nat \<Rightarrow> history_outcome"
  history_seconds :: "nat \<Rightarrow> nat \<Rightarrow> nat"
  get_view :: "nat \<Rightarrow> string \<Rightarrow> exn + bytes"
  storage_upload :: "nat \<Rightarrow> string \<Rightarrow> exn option"
  get_public_url :: "nat \<Rightarrow> string \<Rightarrow> exn + string"

type_synonym response = "json \<times> nat"

section \<open>Constants and small helpers\<close>

definition COMFYUI_API_URL :: string where
  "COMFYUI_API_URL = ''https://9io0dgfk3xonew-8188.proxy.runpod.net''"

definition input_dir :: string where
  "input_dir = ''/workspace/ComfyUI/input/''"

definition max_attempts :: nat where
  "max_attempts = 60"

fun str_nat :: "nat \<Rightarrow> string" where
  "str_nat n =
     (if n < 10 then [''0123456789'' ! n]
      else str_nat (n div 10) @ [''0123456789'' ! (n mod 10)])"

declare str_nat.simps [simp del]

fun exn_str :: "exn \<Rightarrow> string" where
  "exn_str (KeyError k) = quoted k"
| "exn_str (TypeError m) = m"
| "exn_str (IndexError m) = m"
| "exn_str (ValueError m) = m"
| "exn_str (ExternalError m) = m"

definition jstr :: "string \<Rightarrow> json" where
  "jstr s = JAtom (AStr s)"

definition say :: "world \<Rightarrow> log_line \<Rightarrow> world" where
  "say w l = w\<lparr>stdout := stdout w @ [l]\<rparr>"

definition sleep :: "world \<Rightarrow> nat \<Rightarrow> world" where
  "sleep w n = w\<lparr>slept := slept w + n\<rparr>"

text \<open>
  \<^verbatim>\<open>subprocess.run(..., timeout=10)\<close> of line 362 returns when the command ends and raises
  \<^verbatim>\<open>TimeoutExpired\<close> when it has not ended after 10 seconds: the call lasts as long as the
  command, 10 seconds at most.
\<close>

definition query_timeout :: nat where
  "query_timeout = 10"

definition wait_query :: "world \<Rightarrow> nat \<Rightarrow> world" where
  "wait_query w seconds = w\<lparr>waited := waited w + min seconds query_timeout\<rparr>"

text \<open>\<^verbatim>\<open>img.get('local_path') or img['image_url']\<close>: an absent or empty local path is falsy.\<close>

definition img_url :: "carousel_image \<Rightarrow> string" where
  "img_url img =
     (case ci_local_path img of
        None \<Rightarrow> ci_image_url img
      | Some p \<Rightarrow> if p = [] then ci_image_url img else p)"

text \<open>\<^verbatim>\<open>not output_filename\<close>: \<^verbatim>\<open>None\<close> and the empty string are falsy.\<close>

fun truthy :: "string option \<Rightarrow> bool" where
  "truthy None = False"
| "truthy (Some s) = (s \<noteq> [])"

section \<open>Datastore operations\<close>

text \<open>\<^verbatim>\<open>update({...}).eq('id', test_id)\<close> on \<^verbatim>\<open>edit_tests\<close> (lines 217-221).\<close>

definition mark_approved :: "string \<Rightarrow> string \<Rightarrow> string \<Rightarrow> edit_test list \<Rightarrow> edit_test list" where
  "mark_approved test_id ts notes rows =
     map (\<lambda>r. if et_id r = test_id
               then r\<lparr>et_status := ''approved'', et_approved_at := Some ts, et_notes := Some notes\<rparr>
               else r) rows"

text \<open>The sibling query of line 232: same carousel, another image, ordered by \<^verbatim>\<open>image_order\<close>.\<close>

definition select_other_images :: "world \<Rightarrow> edit_test \<Rightarrow> carousel_image list" where
  "select_other_images w test =
     sort_key ci_image_order
       (filter (\<lambda>img. ci_carousel_id img = et_carousel_id test \<and> ci_id img \<noteq> et_image_id test)
          (carousel_images w))"

definition image_entry :: "carousel_image \<Rightarrow> json" where
  "image_entry img =
     JObj [(''id'', jstr (ci_id img)), (''url'', jstr (img_url img)),
           (''order'', JAtom (AInt (ci_image_order img)))]"

text \<open>
  The insert of lines 241-250. The identifier is generated by the datastore; the column is
  a primary key, so an identifier already present is refused, and that exception is raised
  outside the \<^verbatim>\<open>try\<close>.
\<close>

definition insert_batch ::
  "env \<Rightarrow> world \<Rightarrow> string \<Rightarrow> edit_test \<Rightarrow> carousel_image list \<Rightarrow> exn + world" where
  "insert_batch env w test_id test other_images =
     (if new_batch_id env \<in> set (map b_id (comfyui_batches w))
      then Inl (ExternalError ''duplicate key value violates unique constraint'')
      else Inr (w\<lparr>comfyui_batches := comfyui_batches w @
             [\<lparr>b_id = new_batch_id env, b_edit_test_id = test_id,
               b_carousel_id = et_carousel_id test, b_status = ''processing'',
               b_images_to_process = JArr (map image_entry other_images),
               b_completed_images = None,
               b_workflow_name = ''OpenPose Workflow 2 (Batch)'',
               b_completed_at = None, b_error_message = None\<rparr>]\<rparr>))"

definition update_batch :: "string \<Rightarrow> (batch \<Rightarrow> batch) \<Rightarrow> world \<Rightarrow> world" where
  "update_batch batch_id f w =
     w\<lparr>comfyui_batches := map (\<lambda>b. if b_id b = batch_id then f b else b) (comfyui_batches w)\<rparr>"

section \<open>Job-graph instantiation (lines 317-324)\<close>

definition json_dumps :: "heap \<Rightarrow> pyval \<Rightarrow> exn + json" where
  "json_dumps h v = dumps (length h) h v"

text \<open>\<^verbatim>\<open>json.loads(json.dumps(workflow_template))\<close>.\<close>

definition deep_copy :: "heap \<Rightarrow> pyval \<Rightarrow> exn + heap \<times> pyval" where
  "deep_copy h v = (case json_dumps h v of Inl e \<Rightarrow> Inl e | Inr j \<Rightarrow> Inr (loads h j))"

definition pose_name :: "nat \<Rightarrow> string" where
  "pose_name pose_index = ''pose'' @ str_nat (pose_index + 1)"

definition instantiate ::
  "heap \<Rightarrow> pyval \<Rightarrow> string \<Rightarrow> string \<Rightarrow> nat \<Rightarrow> int \<Rightarrow> string \<Rightarrow> exn + heap \<times> pyval" where
  "instantiate h workflow_template model_filename pose_folder pose_index seed batch_id =
     (case deep_copy h workflow_template of
        Inl e \<Rightarrow> Inl e
      | Inr (h0, workflow) \<Rightarrow>
     (case bind_slot h0 workflow ''67'' ''unet_name''
             (AStr ''qwen_image_edit_2509_fp8_e4m3fn.safetensors'') of
        Inl e \<Rightarrow> Inl e
      | Inr h1 \<Rightarrow>
     (case bind_slot h1 workflow ''78'' ''image'' (AStr model_filename) of
        Inl e \<Rightarrow> Inl e
      | Inr h2 \<Rightarrow>
     (case bind_slot h2 workflow ''179'' ''image''
             (AStr (pose_folder @ ''/'' @ pose_name pose_index @ ''.jpg'')) of
        Inl e \<Rightarrow> Inl e
      | Inr h3 \<Rightarrow>
     (case bind_slot h3 workflow ''74'' ''seed'' (AInt seed) of
        Inl e \<Rightarrow> Inl e
      | Inr h4 \<Rightarrow>
     (case bind_slot h4 workflow ''94'' ''filename_prefix''
             (AStr (batch_id @ ''_'' @ pose_name pose_index)) of
        Inl e \<Rightarrow> Inl e
      | Inr h5 \<Rightarrow> Inr (h5, workflow)))))))"

text \<open>Reading a bound slot back: \<^verbatim>\<open>workflow[node]["inputs"][slot]\<close>.\<close>

definition slot_value :: "heap \<Rightarrow> pyval \<Rightarrow> string \<Rightarrow> string \<Rightarrow> exn + pyval" where
  "slot_value h workflow node slot =
     (case getitem h workflow node of
        Inl e \<Rightarrow> Inl e
      | Inr n \<Rightarrow>
          (case getitem h n ''inputs'' of
             Inl e \<Rightarrow> Inl e
           | Inr i \<Rightarrow> getitem h i slot))"

section \<open>The batch run of \<^verbatim>\<open>approve_edit\<close> (lines 252-453)\<close>

text \<open>Step 1, lines 254-271. A missing result URL makes \<^verbatim>\<open>requests.get(None)\<close> raise.\<close>

definition upload_model :: "env \<Rightarrow> world \<Rightarrow> string option \<Rightarrow> world \<times> (exn + string)" where
  "upload_model env w model_image_url =
     (let w1 = say w LogDownloadingModel in
      case (case model_image_url of
              None \<Rightarrow> Inl (ExternalError ''Invalid URL: No scheme supplied'')
            | Some url \<Rightarrow> get_model env url) of
        Inl e \<Rightarrow> (w1, Inl e)
      | Inr content \<Rightarrow>
          (let model_filename = ''model_'' @ uuid_hex8 env 0 @ ''.jpg'';
               dest = input_dir @ model_filename
           in case scp_model env dest of
                Some e \<Rightarrow> (w1, Inl e)
              | None \<Rightarrow>
                  (say (w1\<lparr>render_input := render_input w1 @ [(dest, content)]\<rparr>)
                     (LogModelUploaded model_filename),
                   Inr model_filename)))"

text \<open>Step 2, lines 274-279.\<close>

definition make_pose_folder :: "env \<Rightarrow> world \<Rightarrow> world \<times> (exn + string)" where
  "make_pose_folder env w =
     (let pose_folder = ''pose_'' @ uuid_hex8 env 1 in
      case ssh_mkdir env (input_dir @ pose_folder) of
        Some e \<Rightarrow> (w, Inl e)
      | None \<Rightarrow> (w\<lparr>render_dirs := render_dirs w @ [input_dir @ pose_folder]\<rparr>, Inr pose_folder))"

text \<open>Step 3, the loop of lines 284-301, from position \<open>idx\<close> on.\<close>

fun upload_poses ::
  "env \<Rightarrow> string \<Rightarrow> nat \<Rightarrow> carousel_image list \<Rightarrow> world \<Rightarrow> world \<times> exn option" where
  "upload_poses env pose_folder idx [] w = (w, None)"
| "upload_poses env pose_folder idx (img_data # rest) w =
     (case get_pose env idx (img_url img_data) of
        Inl e \<Rightarrow> (w, Some e)
      | Inr content \<Rightarrow>
          (let pose_filename = pose_name idx @ ''.jpg'';
               dest = input_dir @ pose_folder @ ''/'' @ pose_filename
           in case scp_pose env idx dest of
                Some e \<Rightarrow> (w, Some e)
              | None \<Rightarrow>
                  upload_poses env pose_folder (idx + 1) rest
                    (w\<lparr>render_input := render_input w @ [(dest, content)]\<rparr>)))"

text \<open>
  Step 5, the loop of lines 316-336, from position \<open>pose_index\<close> on: instantiate the graph,
  post \<^verbatim>\<open>{"prompt": workflow}\<close>, record the job identifier if there is one, sleep a second.
\<close>

fun submit_all ::
  "env \<Rightarrow> string \<Rightarrow> string \<Rightarrow> string \<Rightarrow> pyval \<Rightarrow> nat \<Rightarrow> nat \<Rightarrow> carousel_image list
     \<Rightarrow> heap \<Rightarrow> string list \<Rightarrow> world \<Rightarrow> world \<times> (exn + string list)" where
  "submit_all env batch_id model_filename pose_folder workflow_template n_images pose_index []
     h prompt_ids w = (w, Inr prompt_ids)"
| "submit_all env batch_id model_filename pose_folder workflow_template n_images pose_index
     (pose_img # rest) h prompt_ids w =
     (case instantiate h workflow_template model_filename pose_folder pose_index
             (randint env pose_index) batch_id of
        Inl e \<Rightarrow> (w, Inl e)
      | Inr (h1, workflow) \<Rightarrow>
          (let h2 = h1 @ [ODict [(''prompt'', workflow)]] in
           case json_dumps h2 (VRef (length h1)) of
             Inl e \<Rightarrow> (w, Inl e)
           | Inr payload \<Rightarrow>
               (let w1 = w\<lparr>posted := posted w @ [payload]\<rparr> in
                case post_prompt env pose_index of
                  PostRaises e \<Rightarrow> (w1, Inl e)
                | PostNoId \<Rightarrow>
                    submit_all env batch_id model_filename pose_folder workflow_template n_images
                      (pose_index + 1) rest h2 prompt_ids (sleep w1 1)
                | PostId prompt_id \<Rightarrow>
                    submit_all env batch_id model_filename pose_folder workflow_template n_images
                      (pose_index + 1) rest h2 (prompt_ids @ [prompt_id])
                      (sleep (say w1 (LogPoseTriggered (pose_index + 1) n_images prompt_id)) 1))))"

text \<open>Steps 4 and 5, lines 306-338: load the template, then trigger one workflow per item.\<close>

definition trigger_workflows ::
  "env \<Rightarrow> string \<Rightarrow> string \<Rightarrow> string \<Rightarrow> carousel_image list \<Rightarrow> world
     \<Rightarrow> world \<times> (exn + string list)" where
  "trigger_workflows env batch_id model_filename pose_folder other_images w =
     (case load_template env of
        Inl e \<Rightarrow> (w, Inl e)
      | Inr document \<Rightarrow>
          (case loads [] document of
             (h, workflow_template) \<Rightarrow>
               (case submit_all env batch_id model_filename pose_folder workflow_template
                       (length other_images) 0 other_images h []
                       (say w (LogTriggering (length other_images))) of
                  (w1, Inl e) \<Rightarrow> (w1, Inl e)
                | (w1, Inr prompt_ids) \<Rightarrow> (say w1 (LogAllTriggered prompt_ids), Inr prompt_ids))))"

text \<open>Lines 372-376: the first output node that has \<^verbatim>\<open>images\<close> gives \<^verbatim>\<open>images[0]['filename']\<close>.\<close>

fun first_image :: "(string \<times> string list option) list \<Rightarrow> exn + string option" where
  "first_image [] = Inr None"
| "first_image ((node_id, None) # rest) = first_image rest"
| "first_image ((node_id, Some []) # rest) = Inl (IndexError ''list index out of range'')"
| "first_image ((node_id, Some (filename # others)) # rest) = Inr (Some filename)"

text \<open>Lines 362-377: what one status query tells.\<close>

definition check_history :: "history_outcome \<Rightarrow> string \<Rightarrow> poll_result" where
  "check_history r prompt_id =
     (case r of
        HistoryRaises e \<Rightarrow> Failed e
      | HistoryData history_data \<Rightarrow>
          (case map_of history_data prompt_id of
             None \<Rightarrow> Pending
           | Some entry \<Rightarrow>
               if he_completed entry
               then (case first_image (he_outputs entry) of
                       Inl e \<Rightarrow> Failed e
                     | Inr output_filename \<Rightarrow> Done output_filename)
               else Pending))"

text \<open>
  The \<^verbatim>\<open>while\<close> loop of lines 355-384 for the job at index \<open>idx\<close>, entered with \<open>attempt\<close>
  attempts made. It returns the output filename and the number of attempts made. Each attempt
  sleeps 5 seconds and then waits for its status query, whatever the query comes to.
\<close>

function poll_job ::
  "env \<Rightarrow> nat \<Rightarrow> string \<Rightarrow> nat \<Rightarrow> world \<Rightarrow> world \<times> string option \<times> nat" where
  "poll_job env idx prompt_id attempt w =
     (if attempt < max_attempts then
        (let w0 = sleep w 5; attempt1 = attempt + 1;
             w1 = wait_query w0 (history_seconds env idx attempt1) in
         case check_history (get_history env idx attempt1) prompt_id of
           Failed poll_error \<Rightarrow>
             poll_job env idx prompt_id attempt1 (say w1 (LogPollError poll_error))
         | Done output_filename \<Rightarrow> (w1, output_filename, attempt1)
         | Pending \<Rightarrow>
             poll_job env idx prompt_id attempt1
               (if attempt1 mod 6 = 0 then say w1 (LogAttempt attempt1 max_attempts (idx + 1))
                else w1))
      else (w, None, attempt))"
  by pat_completeness auto
termination
  by (relation "measure (\<lambda>(env, idx, prompt_id, attempt, w). max_attempts - attempt)") auto

declare poll_job.simps [simp del]

definition view_url :: "string \<Rightarrow> nat \<Rightarrow> string" where
  "view_url batch_id idx =
     COMFYUI_API_URL @ ''/api/view?filename='' @ (batch_id @ ''_'' @ pose_name idx @ ''_00001_.png'')
       @ ''&type=output&subfolder=''"

definition storage_path_of :: "string \<Rightarrow> nat \<Rightarrow> string" where
  "storage_path_of batch_id idx = ''pose_transfers/'' @ batch_id @ ''_'' @ pose_name idx @ ''.png''"

text \<open>Lines 393-418: fetch the output by its recomputed name and store it.\<close>

definition download_and_store ::
  "env \<Rightarrow> string \<Rightarrow> nat \<Rightarrow> world \<Rightarrow> world \<times> (exn + string)" where
  "download_and_store env batch_id idx w =
     (let download_url = view_url batch_id idx;
          w1 = (say w (LogDownloading download_url))
                 \<lparr>view_requests := view_requests w @ [download_url]\<rparr>
      in case get_view env idx download_url of
           Inl e \<Rightarrow> (w1, Inl e)
         | Inr file_data \<Rightarrow>
             (let storage_path = storage_path_of batch_id idx in
              case storage_upload env idx storage_path of
                Some e \<Rightarrow> (w1, Inl e)
              | None \<Rightarrow>
                  (let w2 = w1\<lparr>bucket := bucket w1 @ [(storage_path, file_data)]\<rparr> in
                   case get_public_url env idx storage_path of
                     Inl e \<Rightarrow> (w2, Inl e)
                   | Inr public_url \<Rightarrow> (say w2 (LogStored storage_path), Inr public_url))))"

text \<open>Step 6, the loop of lines 350-424, from index \<open>idx\<close> on.\<close>

fun collect_results ::
  "env \<Rightarrow> string \<Rightarrow> nat \<Rightarrow> nat \<Rightarrow> string list \<Rightarrow> string list \<Rightarrow> world
     \<Rightarrow> world \<times> string list" where
  "collect_results env batch_id n_jobs idx [] completed_images w = (w, completed_images)"
| "collect_results env batch_id n_jobs idx (prompt_id # rest) completed_images w =
     (case poll_job env idx prompt_id 0 (say w (LogPolling (idx + 1) n_jobs prompt_id)) of
        (w1, output_filename, attempt) \<Rightarrow>
          if \<not> truthy output_filename
          then collect_results env batch_id n_jobs (idx + 1) rest completed_images
                 (say w1 (LogTimedOut (idx + 1)))
          else (case download_and_store env batch_id idx (say w1 (LogPoseComplete (idx + 1))) of
                  (w2, Inl download_error) \<Rightarrow>
                    collect_results env batch_id n_jobs (idx + 1) rest completed_images
                      (say w2 (LogDownloadError (idx + 1) download_error))
                | (w2, Inr public_url) \<Rightarrow>
                    collect_results env batch_id n_jobs (idx + 1) rest
                      (completed_images @ [public_url]) w2))"

text \<open>Step 7, lines 427-453.\<close>

definition finish_batch ::
  "env \<Rightarrow> string \<Rightarrow> string list \<Rightarrow> string list \<Rightarrow> world \<Rightarrow> world \<times> response" where
  "finish_batch env batch_id prompt_ids completed_images w =
     (if completed_images \<noteq> [] then
        (say (update_batch batch_id
                (\<lambda>b. b\<lparr>b_status := ''completed'', b_completed_images := Some completed_images,
                        b_completed_at := Some (now env 1)\<rparr>) w)
           (LogBatchComplete (length completed_images) (length prompt_ids)),
         (JObj [(''success'', JAtom (ABool True)),
                (''message'', jstr (''Edit approved! Generated '' @ str_nat (length completed_images)
                    @ ''/'' @ str_nat (length prompt_ids) @ '' pose transfers.'')),
                (''batch_id'', jstr batch_id),
                (''completed_images'', JArr (map jstr completed_images))], 200))
      else
        (update_batch batch_id
           (\<lambda>b. b\<lparr>b_status := ''failed'',
                   b_error_message := Some ''All workflows timed out or failed'',
                   b_completed_at := Some (now env 1)\<rparr>) w,
         (JObj [(''success'', JAtom (ABool False)),
                (''error'', jstr ''All workflows timed out or failed. Check RunPod ComfyUI.''),
                (''batch_id'', jstr batch_id)], 500)))"

text \<open>The body of the \<^verbatim>\<open>try\<close>: \<open>Inl\<close> is an exception that reaches the handler of line 455.\<close>

definition run_batch ::
  "env \<Rightarrow> world \<Rightarrow> edit_test \<Rightarrow> carousel_image list \<Rightarrow> string \<Rightarrow> world \<times> (exn + response)" where
  "run_batch env w test other_images batch_id =
     (case upload_model env w (et_nanabana_result_url test) of
        (w1, Inl e) \<Rightarrow> (w1, Inl e)
      | (w1, Inr model_filename) \<Rightarrow>
     (case make_pose_folder env w1 of
        (w2, Inl e) \<Rightarrow> (w2, Inl e)
      | (w2, Inr pose_folder) \<Rightarrow>
     (case upload_poses env pose_folder 0 other_images
             (say w2 (LogDownloadingPoses (length other_images))) of
        (w3, Some e) \<Rightarrow> (w3, Inl e)
      | (w3, None) \<Rightarrow>
     (case trigger_workflows env batch_id model_filename pose_folder other_images
             (say w3 (LogPosesUploaded pose_folder)) of
        (w4, Inl e) \<Rightarrow> (w4, Inl e)
      | (w4, Inr prompt_ids) \<Rightarrow>
     (case collect_results env batch_id (length prompt_ids) 0 prompt_ids []
             (say (update_batch batch_id (\<lambda>b. b\<lparr>b_status := ''processing''\<rparr>) w4) LogWaiting) of
        (w5, completed_images) \<Rightarrow>
          (case finish_batch env batch_id prompt_ids completed_images w5 of
             (w6, resp) \<Rightarrow> (w6, Inr resp)))))))"

text \<open>The handler of lines 455-468.\<close>

definition fail_batch :: "env \<Rightarrow> string \<Rightarrow> exn \<Rightarrow> world \<Rightarrow> world \<times> response" where
  "fail_batch env batch_id e w =
     (update_batch batch_id
        (\<lambda>b. b\<lparr>b_status := ''failed'', b_error_message := Some (exn_str e),
                b_completed_at := Some (now env 1)\<rparr>) (say w (LogBatchError e)),
      (JObj [(''success'', JAtom (ABool False)), (''error'', jstr (exn_str e))], 500))"

text \<open>
  \<^verbatim>\<open>approve_edit\<close>, lines 204-468. \<open>Inl\<close> is an exception no handler of the function catches:
  \<^verbatim>\<open>test_result.data[0]\<close> on an unknown identifier, or the refused insert.
\<close>

definition approve_edit :: "env \<Rightarrow> world \<Rightarrow> string \<Rightarrow> string \<Rightarrow> world \<times> (exn + response)" where
  "approve_edit env w test_id notes =
     (let w1 = w\<lparr>edit_tests := mark_approved test_id (now env 0) notes (edit_tests w)\<rparr> in
      case find (\<lambda>r. et_id r = test_id) (edit_tests w1) of
        None \<Rightarrow> (w1, Inl (IndexError ''list index out of range''))
      | Some test \<Rightarrow>
          (let other_images = select_other_images w1 test in
           if other_images = [] then
             (w1, Inr (JObj [(''success'', JAtom (ABool True)),
                             (''message'', jstr ''Edit approved! No other images to process.'')],
                       200))
           else
             (case insert_batch env w1 test_id test other_images of
                Inl e \<Rightarrow> (w1, Inl e)
              | Inr w2 \<Rightarrow>
                  (case run_batch env w2 test other_images (new_batch_id env) of
                     (w3, Inr resp) \<Rightarrow> (w3, Inr resp)
                   | (w3, Inl e) \<Rightarrow>
                       (case fail_batch env (new_batch_id env) e w3 of
                          (w4, resp) \<Rightarrow> (w4, Inr resp))))))"

section \<open>The single pose transfer, \<^verbatim>\<open>api_pose_transfer\<close> (lines 506-689)\<close>

record pt_env =
  pt_get_model :: "string \<Rightarrow> exn + bytes"
  pt_get_pose :: "string \<Rightarrow> exn + bytes"
  pt_job_id :: string
  pt_scp_model :: "string \<Rightarrow> exn option"
  pt_scp_pose :: "string \<Rightarrow> exn option"
  pt_timestamp :: int
  pt_submit :: "json \<Rightarrow> exn + string option"
  pt_history :: "nat \<Rightarrow> history_outcome"
  pt_scp_result :: "string \<Rightarrow> exn + bytes"
  pt_storage_upload :: "string \<Rightarrow> exn option"
  pt_public_url :: "string \<Rightarrow> exn + string"

definition default_prompt :: string where
  "default_prompt = ''the person in image 1 adopts only the body pose and skeletal position from image 2. keep the exact same clothing, outfit, face, hair, and appearance from image 1. only change the body position and pose''"

definition node_link :: "string \<Rightarrow> int \<Rightarrow> json" where
  "node_link key slot = JArr [jstr key, JAtom (AInt slot)]"

definition graph_node :: "(string \<times> json) list \<Rightarrow> string \<Rightarrow> json" where
  "graph_node inputs class_type = JObj [(''inputs'', JObj inputs), (''class_type'', jstr class_type)]"

text \<open>The literal of lines 567-588.\<close>

definition workflow_payload :: "string \<Rightarrow> string \<Rightarrow> string \<Rightarrow> int \<Rightarrow> string \<Rightarrow> json" where
  "workflow_payload model_filename pose_filename job_id seed prompt =
     JObj [(''prompt'', JObj
       [(''67'', graph_node [(''unet_name'', jstr ''qwen_image_edit_2509_fp8_e4m3fn.safetensors''),
                       (''weight_dtype'', jstr ''fp8_e4m3fn'')] ''UNETLoader''),
        (''69'', graph_node [(''vae_name'', jstr ''qwen_image_vae.safetensors'')] ''VAELoader''),
        (''74'', graph_node [(''seed'', JAtom (AInt seed)), (''steps'', JAtom (AInt 8)),
                       (''cfg'', JAtom (AInt 1)), (''sampler_name'', jstr ''euler_ancestral''),
                       (''scheduler'', jstr ''normal''), (''denoise'', JAtom (AFloat ''0.97'')),
                       (''model'', node_link ''161'' 0), (''positive'', node_link ''163'' 0),
                       (''negative'', node_link ''164'' 0), (''latent_image'', node_link ''178'' 0)]
                 ''KSampler''),
        (''76'', graph_node [(''samples'', node_link ''74'' 0), (''vae'', node_link ''69'' 0)] ''VAEDecode''),
        (''78'', graph_node [(''image'', jstr model_filename)] ''LoadImage''),
        (''88'', graph_node [(''PowerLoraLoaderHeaderWidget'',
                          JObj [(''type'', jstr ''PowerLoraLoaderHeaderWidget'')]),
                       (''lora_1'', JObj [(''on'', JAtom (ABool True)),
                          (''lora'', jstr ''Qwen-Image-Lightning-8steps-V2.0-bf16.safetensors''),
                          (''strength'', JAtom (AInt 1))]),
                       (''model'', node_link ''67'' 0), (''clip'', node_link ''160'' 0)]
                 ''Power Lora Loader (rgthree)''),
        (''94'', graph_node [(''filename_prefix'', jstr (''pose_transfer_'' @ job_id)),
                       (''images'', node_link ''76'' 0)] ''SaveImage''),
        (''160'', graph_node [(''clip_name'', jstr ''qwen_2.5_vl_7b_fp8_scaled.safetensors''),
                        (''type'', jstr ''qwen_image''), (''device'', jstr ''default'')]
                  ''CLIPLoader''),
        (''161'', graph_node [(''strength'', JAtom (AInt 1)), (''model'', node_link ''162'' 0)] ''CFGNorm''),
        (''162'', graph_node [(''shift'', JAtom (AInt 3)), (''model'', node_link ''88'' 0)]
                  ''ModelSamplingAuraFlow''),
        (''163'', graph_node [(''prompt'', jstr prompt), (''clip'', node_link ''88'' 1),
                        (''vae'', node_link ''69'' 0), (''image1'', node_link ''176'' 0),
                        (''image2'', node_link ''192'' 0)] ''TextEncodeQwenImageEditPlus''),
        (''164'', graph_node [(''prompt'', jstr ''''), (''clip'', node_link ''88'' 1)]
                  ''TextEncodeQwenImageEditPlus''),
        (''176'', graph_node [(''upscale_method'', jstr ''nearest-exact''),
                        (''megapixels'', JAtom (AFloat ''1.1'')), (''image'', node_link ''78'' 0)]
                  ''ImageScaleToTotalPixels''),
        (''178'', graph_node [(''pixels'', node_link ''176'' 0), (''vae'', node_link ''69'' 0)] ''VAEEncode''),
        (''179'', graph_node [(''image'', jstr pose_filename)] ''LoadImage''),
        (''189'', graph_node [(''upscale_method'', jstr ''nearest-exact''),
                        (''megapixels'', JAtom (AFloat ''1.1'')), (''image'', node_link ''179'' 0)]
                  ''ImageScaleToTotalPixels''),
        (''192'', graph_node [(''preprocessor'', jstr ''OpenposePreprocessor''),
                        (''resolution'', JAtom (AInt 768)), (''image'', node_link ''189'' 0)]
                  ''AIO_Preprocessor''),
        (''193'', graph_node [(''images'', node_link ''192'' 0)] ''PreviewImage'')])]"

text \<open>Lines 521-564: fetch both images, name them after the job, copy them to the host.\<close>

definition pt_upload_inputs ::
  "pt_env \<Rightarrow> world \<Rightarrow> string \<Rightarrow> string \<Rightarrow> world \<times> (exn + string \<times> string)" where
  "pt_upload_inputs env w model_image_url pose_image_url =
     (let w1 = say w (LogPtDownloadingModel model_image_url) in
      case pt_get_model env model_image_url of
        Inl e \<Rightarrow> (w1, Inl e)
      | Inr model_content \<Rightarrow>
     (let w2 = say w1 (LogPtDownloadingPose pose_image_url) in
      case pt_get_pose env pose_image_url of
        Inl e \<Rightarrow> (w2, Inl e)
      | Inr pose_content \<Rightarrow>
     (let model_filename = ''model_'' @ pt_job_id env @ ''.jpg'';
          pose_filename = ''pose_'' @ pt_job_id env @ ''.jpg''
      in case pt_scp_model env (input_dir @ model_filename) of
           Some e \<Rightarrow> (w2, Inl e)
         | None \<Rightarrow>
     (let w3 = w2\<lparr>render_input := render_input w2 @ [(input_dir @ model_filename, model_content)]\<rparr>
      in case pt_scp_pose env (input_dir @ pose_filename) of
           Some e \<Rightarrow> (w3, Inl e)
         | None \<Rightarrow>
             (w3\<lparr>render_input := render_input w3 @ [(input_dir @ pose_filename, pose_content)]\<rparr>,
              Inr (model_filename, pose_filename))))))"

text \<open>
  The \<^verbatim>\<open>while\<close> loop of lines 611-634: at most 40 attempts, 3 seconds apart; here an exception
  of a status query is not caught in the loop. The job identifier is \<^verbatim>\<open>None\<close> when the
  submission response had none, and then no history entry matches it.
\<close>

function pt_poll ::
  "pt_env \<Rightarrow> string option \<Rightarrow> nat \<Rightarrow> world \<Rightarrow> world \<times> (exn + string option)" where
  "pt_poll env prompt_id attempt w =
     (if attempt < 40 then
        (let w1 = sleep w 3; attempt1 = attempt + 1 in
         case (case prompt_id of
                 Some p \<Rightarrow> check_history (pt_history env attempt1) p
               | None \<Rightarrow> (case pt_history env attempt1 of
                             HistoryRaises e \<Rightarrow> Failed e
                           | HistoryData history_data \<Rightarrow> Pending)) of
           Failed e \<Rightarrow> (w1, Inl e)
         | Done output_filename \<Rightarrow> (w1, Inr output_filename)
         | Pending \<Rightarrow> pt_poll env prompt_id attempt1 (say w1 (LogPtAttempt attempt1 40)))
      else (w, Inr None))"
  by pat_completeness auto
termination
  by (relation "measure (\<lambda>(env, prompt_id, attempt, w). 40 - attempt)") auto

declare pt_poll.simps [simp del]

text \<open>Lines 644-682: copy the file the status query named, store it, answer.\<close>

definition pt_retrieve ::
  "pt_env \<Rightarrow> string option \<Rightarrow> string \<Rightarrow> world \<Rightarrow> world \<times> (exn + response)" where
  "pt_retrieve env prompt_id output_filename w =
     (let w1 = say w (LogPtComplete output_filename);
          output_path = ''/workspace/ComfyUI/output/'' @ output_filename;
          local_result_path = ''/tmp/result_'' @ pt_job_id env @ ''.png'';
          w2 = w1\<lparr>scp_fetched := scp_fetched w1 @ [output_path]\<rparr>
      in case pt_scp_result env output_path of
           Inl e \<Rightarrow> (w2, Inl e)
         | Inr file_data \<Rightarrow>
     (let w3 = say w2 (LogPtDownloaded local_result_path);
          storage_path = ''pose_transfers/'' @ pt_job_id env @ ''_'' @ output_filename
      in case pt_storage_upload env storage_path of
           Some e \<Rightarrow> (w3, Inl e)
         | None \<Rightarrow>
     (let w4 = w3\<lparr>bucket := bucket w3 @ [(storage_path, file_data)]\<rparr>
      in case pt_public_url env storage_path of
           Inl e \<Rightarrow> (w4, Inl e)
         | Inr result_url \<Rightarrow>
             (say w4 (LogPtUploaded result_url),
              Inr (JObj [(''success'', JAtom (ABool True)),
                         (''prompt_id'', (case prompt_id of None \<Rightarrow> JAtom ANone | Some p \<Rightarrow> jstr p)),
                         (''job_id'', jstr (pt_job_id env)),
                         (''result_url'', jstr result_url),
                         (''message'', jstr ''Pose transfer completed successfully!'')], 200)))))"

text \<open>The body of the \<^verbatim>\<open>try\<close> of lines 520-682.\<close>

definition pose_transfer_run ::
  "pt_env \<Rightarrow> world \<Rightarrow> string \<Rightarrow> string \<Rightarrow> string \<Rightarrow> world \<times> (exn + response)" where
  "pose_transfer_run env w model_image_url pose_image_url prompt =
     (case pt_upload_inputs env w model_image_url pose_image_url of
        (w1, Inl e) \<Rightarrow> (w1, Inl e)
      | (w1, Inr (model_filename, pose_filename)) \<Rightarrow>
     (let payload = workflow_payload model_filename pose_filename (pt_job_id env)
                      (pt_timestamp env) prompt;
          w2 = w1\<lparr>posted := posted w1 @ [payload]\<rparr>
      in case pt_submit env payload of
           Inl e \<Rightarrow> (w2, Inl e)
         | Inr prompt_id \<Rightarrow>
     (case pt_poll env prompt_id 0 (say (say w2 (LogPtTriggered prompt_id)) LogPtWaiting) of
        (w3, Inl e) \<Rightarrow> (w3, Inl e)
      | (w3, Inr output_filename) \<Rightarrow>
          (case output_filename of
             None \<Rightarrow>
               (w3, Inr (JObj [(''success'', JAtom (ABool False)),
                    (''error'', jstr ''Generation timed out or failed. Check RunPod ComfyUI manually.''),
                    (''prompt_id'', (case prompt_id of None \<Rightarrow> JAtom ANone | Some p \<Rightarrow> jstr p)),
                    (''job_id'', jstr (pt_job_id env))], 500))
           | Some f \<Rightarrow>
               if f = [] then
                 (w3, Inr (JObj [(''success'', JAtom (ABool False)),
                    (''error'', jstr ''Generation timed out or failed. Check RunPod ComfyUI manually.''),
                    (''prompt_id'', (case prompt_id of None \<Rightarrow> JAtom ANone | Some p \<Rightarrow> jstr p)),
                    (''job_id'', jstr (pt_job_id env))], 500))
               else pt_retrieve env prompt_id f w3))))"

text \<open>\<^verbatim>\<open>api_pose_transfer\<close>: the two URLs and the optional prompt of the request body.\<close>

definition api_pose_transfer ::
  "pt_env \<Rightarrow> world \<Rightarrow> string option \<Rightarrow> string option \<Rightarrow> string option \<Rightarrow> world \<times> response" where
  "api_pose_transfer env w model_image_url pose_image_url prompt =
     (if \<not> truthy model_image_url \<or> \<not> truthy pose_image_url
      then (w, (JObj [(''error'', jstr ''Both image URLs are required'')], 400))
      else
        (case pose_transfer_run env w (case model_image_url of Some m \<Rightarrow> m | None \<Rightarrow> [])
                (case pose_image_url of Some p \<Rightarrow> p | None \<Rightarrow> [])
                (case prompt of Some p \<Rightarrow> p | None \<Rightarrow> default_prompt) of
           (w1, Inr resp) \<Rightarrow> (w1, resp)
         | (w1, Inl e) \<Rightarrow>
             (say w1 (LogPtError e),
              (JObj [(''success'', JAtom (ABool False)), (''error'', jstr (exn_str e))], 500))))"

section \<open>Auxiliary definitions for the statements\<close>

text \<open>The row that step 7 writes for the completed images \<open>imgs\<close> (lines 427-447).\<close>

definition final_row :: "env \<Rightarrow> string list \<Rightarrow> batch \<Rightarrow> batch" where
  "final_row env imgs b =
     (if imgs \<noteq> []
      then b\<lparr>b_status := ''completed'', b_completed_images := Some imgs,
              b_completed_at := Some (now env 1)\<rparr>
      else b\<lparr>b_status := ''failed'',
              b_error_message := Some ''All workflows timed out or failed'',
              b_completed_at := Some (now env 1)\<rparr>)"


text \<open>
  The document an instantiated job graph serialises to, computed on documents: the five
  assignments of lines 320-324 applied to the template document.
\<close>

definition jinstantiate ::
  "json \<Rightarrow> string \<Rightarrow> string \<Rightarrow> nat \<Rightarrow> int \<Rightarrow> string \<Rightarrow> exn + json" where
  "jinstantiate j model_filename pose_folder pose_index seed batch_id =
     (case jbind j ''67'' ''unet_name'' (AStr ''qwen_image_edit_2509_fp8_e4m3fn.safetensors'') of
        Inl e \<Rightarrow> Inl e
      | Inr j1 \<Rightarrow>
     (case jbind j1 ''78'' ''image'' (AStr model_filename) of
        Inl e \<Rightarrow> Inl e
      | Inr j2 \<Rightarrow>
     (case jbind j2 ''179'' ''image''
             (AStr (pose_folder @ ''/'' @ pose_name pose_index @ ''.jpg'')) of
        Inl e \<Rightarrow> Inl e
      | Inr j3 \<Rightarrow>
     (case jbind j3 ''74'' ''seed'' (AInt seed) of
        Inl e \<Rightarrow> Inl e
      | Inr j4 \<Rightarrow>
          jbind j4 ''94'' ''filename_prefix'' (AStr (batch_id @ ''_'' @ pose_name pose_index))))))"

text \<open>\<^verbatim>\<open>j[node]["inputs"][slot]\<close> on a document.\<close>

definition jslot :: "json \<Rightarrow> string \<Rightarrow> string \<Rightarrow> exn + json" where
  "jslot j node slot =
     (case jget j node of
        Inl e \<Rightarrow> Inl e
      | Inr n \<Rightarrow> (case jget n ''inputs'' of Inl e \<Rightarrow> Inl e | Inr i \<Rightarrow> jget i slot))"

text \<open>The five slots the batch run binds, read back from a graph in the heap.\<close>

definition bound_values :: "heap \<Rightarrow> pyval \<Rightarrow> (exn + pyval) list" where
  "bound_values h workflow =
     [slot_value h workflow ''67'' ''unet_name'', slot_value h workflow ''78'' ''image'',
      slot_value h workflow ''179'' ''image'', slot_value h workflow ''74'' ''seed'',
      slot_value h workflow ''94'' ''filename_prefix'']"

text \<open>
  The submission loop with the job graphs computed on documents instead of heap objects;
  \<open>submit_all\<close> on a heap where the template serialises to \<open>document\<close> is shown to equal it.
\<close>

fun jsubmit_all ::
  "env \<Rightarrow> string \<Rightarrow> string \<Rightarrow> string \<Rightarrow> json \<Rightarrow> nat \<Rightarrow> nat \<Rightarrow> carousel_image list
     \<Rightarrow> string list \<Rightarrow> world \<Rightarrow> world \<times> (exn + string list)" where
  "jsubmit_all env batch_id model_filename pose_folder document n_images pose_index []
     prompt_ids w = (w, Inr prompt_ids)"
| "jsubmit_all env batch_id model_filename pose_folder document n_images pose_index
     (pose_img # rest) prompt_ids w =
     (case jinstantiate document model_filename pose_folder pose_index
             (randint env pose_index) batch_id of
        Inl e \<Rightarrow> (w, Inl e)
      | Inr workflow \<Rightarrow>
          (let w1 = w\<lparr>posted := posted w @ [JObj [(''prompt'', workflow)]]\<rparr> in
           case post_prompt env pose_index of
             PostRaises e \<Rightarrow> (w1, Inl e)
           | PostNoId \<Rightarrow>
               jsubmit_all env batch_id model_filename pose_folder document n_images
                 (pose_index + 1) rest prompt_ids (sleep w1 1)
           | PostId prompt_id \<Rightarrow>
               jsubmit_all env batch_id model_filename pose_folder document n_images
                 (pose_index + 1) rest (prompt_ids @ [prompt_id])
                 (sleep (say w1 (LogPoseTriggered (pose_index + 1) n_images prompt_id)) 1)))"

text \<open>The job identifier a submission outcome carries, if any.\<close>

fun job_id :: "submit_outcome \<Rightarrow> string option" where
  "job_id (PostId prompt_id) = Some prompt_id"
| "job_id PostNoId = None"
| "job_id (PostRaises e) = None"

text \<open>
  The output filename the poller of one job ends with. The poller's result depends on the
  status queries only, not on the state it is started in (lemma \<open>poll_job_world\<close>), so it is
  read off a run from the blank state.
\<close>

definition blank_world :: world where
  "blank_world =
     \<lparr>edit_tests = [], carousel_images = [], comfyui_batches = [], render_input = [],
      render_dirs = [], posted = [], view_requests = [], scp_fetched = [], bucket = [],
      slept = 0, waited = 0, stdout = []\<rparr>"

definition job_output :: "env \<Rightarrow> nat \<Rightarrow> string \<Rightarrow> string option" where
  "job_output env idx prompt_id = fst (snd (poll_job env idx prompt_id 0 blank_world))"

text \<open>Whether the download of lines 400-411 for index \<open>idx\<close> gets the file and stores it.\<close>

definition stores :: "env \<Rightarrow> string \<Rightarrow> nat \<Rightarrow> bool" where
  "stores env batch_id idx =
     (case get_view env idx (view_url batch_id idx) of
        Inl e \<Rightarrow> False
      | Inr file_data \<Rightarrow> storage_upload env idx (storage_path_of batch_id idx) = None)"

section \<open>Concrete inputs\<close>

text \<open>
  One edit test \<^verbatim>\<open>t1\<close> on image \<^verbatim>\<open>i0\<close> of carousel \<^verbatim>\<open>c1\<close>, a small job-graph template with
  the five nodes the batch run binds, and an environment in which every call succeeds except
  as the given submission outcomes and history documents say.
\<close>

definition demo_test :: edit_test where
  "demo_test =
     \<lparr>et_id = ''t1'', et_carousel_id = ''c1'', et_image_id = ''i0'',
      et_edit_prompt = ''make the jacket red'',
      et_nanabana_result_url = Some ''https://cdn.example/edited.jpg'',
      et_status = ''completed'', et_approved_at = None, et_notes = None\<rparr>"

definition demo_image :: "string \<Rightarrow> int \<Rightarrow> carousel_image" where
  "demo_image i ord =
     \<lparr>ci_id = i, ci_carousel_id = ''c1'', ci_image_url = ''https://cdn.example/'' @ i @ ''.jpg'',
      ci_image_order = ord, ci_local_path = None\<rparr>"

definition demo_world :: "carousel_image list \<Rightarrow> world" where
  "demo_world imgs =
     \<lparr>edit_tests = [demo_test], carousel_images = imgs, comfyui_batches = [],
      render_input = [], render_dirs = [], posted = [], view_requests = [], scp_fetched = [],
      bucket = [], slept = 0, waited = 0, stdout = []\<rparr>"

definition demo_template :: json where
  "demo_template =
     JObj [(''67'', JObj [(''inputs'', JObj [(''unet_name'', jstr ''base.safetensors'')]),
                          (''class_type'', jstr ''UNETLoader'')]),
           (''74'', JObj [(''inputs'', JObj [(''seed'', JAtom (AInt 0)),
                                             (''denoise'', JAtom (AFloat ''0.97''))]),
                          (''class_type'', jstr ''KSampler'')]),
           (''78'', JObj [(''inputs'', JObj [(''image'', jstr ''model.jpg'')]),
                          (''class_type'', jstr ''LoadImage'')]),
           (''94'', JObj [(''inputs'', JObj [(''filename_prefix'', jstr ''out''),
                                             (''images'', JArr [jstr ''76'', JAtom (AInt 0)])]),
                          (''class_type'', jstr ''SaveImage'')]),
           (''179'', JObj [(''inputs'', JObj [(''image'', jstr ''pose.jpg'')]),
                           (''class_type'', jstr ''LoadImage'')])]"

definition demo_env ::
  "json \<Rightarrow> (nat \<Rightarrow> submit_outcome) \<Rightarrow> (nat \<Rightarrow> nat \<Rightarrow> history_outcome) \<Rightarrow> env" where
  "demo_env template post history =
     \<lparr>now = (\<lambda>k. if k = 0 then ''2025-01-01T10:00:00'' else ''2025-01-01T10:05:00''),
      new_batch_id = ''b1'',
      uuid_hex8 = (\<lambda>k. if k = 0 then ''0a1b2c3d'' else ''4e5f6a7b''),
      get_model = (\<lambda>url. Inr ''model-bytes''),
      scp_model = (\<lambda>dest. None),
      ssh_mkdir = (\<lambda>dir. None),
      get_pose = (\<lambda>idx url. Inr (''bytes of '' @ url)),
      scp_pose = (\<lambda>idx dest. None),
      load_template = Inr template,
      randint = (\<lambda>idx. 1000000000000 + int idx),
      post_prompt = post,
      get_history = history,
      history_seconds = (\<lambda>idx attempt. 1),
      get_view = (\<lambda>idx url. Inr ''png-bytes''),
      storage_upload = (\<lambda>idx path. None),
      get_public_url = (\<lambda>idx path. Inr (''https://store.example/'' @ path))\<rparr>"

text \<open>A history document that reports the job \<open>p\<close> completed with the output file \<open>f\<close>.\<close>

definition history_done :: "string \<Rightarrow> string \<Rightarrow> history_outcome" where
  "history_done p f =
     HistoryData [(p, \<lparr>he_completed = True, he_outputs = [(''94'', Some [f])]\<rparr>)]"

text \<open>Three images in the carousel: the edited one and two siblings.\<close>

definition world_three :: world where
  "world_three = demo_world [demo_image ''i0'' 0, demo_image ''i1'' 1, demo_image ''i2'' 2]"

text \<open>The submission of the first sibling is answered with HTTP 503; the second would be
  accepted as job \<^verbatim>\<open>p2\<close>.\<close>

definition env_post_fails :: env where
  "env_post_fails =
     demo_env demo_template
       (\<lambda>k. if k = 0 then PostRaises (ExternalError ''503 Server Error'') else PostId ''p2'')
       (\<lambda>k a. history_done ''p2'' ''ComfyUI_00001_.png'')"

text \<open>The first submission is answered without a job identifier, the second with \<^verbatim>\<open>p2\<close>.\<close>

definition env_no_id :: env where
  "env_no_id =
     demo_env demo_template (\<lambda>k. if k = 0 then PostNoId else PostId ''p2'')
       (\<lambda>k a. history_done ''p2'' ''ComfyUI_00001_.png'')"

text \<open>A template that has the five nodes, each with an empty \<^verbatim>\<open>inputs\<close> mapping: none of the
  bound slot names exists in it.\<close>

definition bare_template :: json where
  "bare_template =
     JObj [(''67'', JObj [(''inputs'', JObj [])]), (''74'', JObj [(''inputs'', JObj [])]),
           (''78'', JObj [(''inputs'', JObj [])]), (''94'', JObj [(''inputs'', JObj [])]),
           (''179'', JObj [(''inputs'', JObj [])])]"

definition env_bare :: env where
  "env_bare = demo_env bare_template (\<lambda>k. PostId ''p1'') (\<lambda>k a. history_done ''p1'' ''x.png'')"

text \<open>A template without any node.\<close>

definition env_empty_template :: env where
  "env_empty_template =
     demo_env (JObj []) (\<lambda>k. PostId ''p1'') (\<lambda>k a. history_done ''p1'' ''x.png'')"

text \<open>Every status query reports the job \<^verbatim>\<open>p1\<close> completed with the file \<^verbatim>\<open>ComfyUI_00001_.png\<close>.\<close>

definition env_done :: env where
  "env_done =
     demo_env demo_template (\<lambda>k. PostId ''p1'')
       (\<lambda>k a. history_done ''p1'' ''ComfyUI_00001_.png'')"


text \<open>A single pose transfer whose calls all succeed, with the same status document.\<close>

definition demo_pt_env :: pt_env where
  "demo_pt_env =
     \<lparr>pt_get_model = (\<lambda>url. Inr ''model-bytes''),
      pt_get_pose = (\<lambda>url. Inr ''pose-bytes''),
      pt_job_id = ''0a1b2c3d'',
      pt_scp_model = (\<lambda>dest. None),
      pt_scp_pose = (\<lambda>dest. None),
      pt_timestamp = 1700000000,
      pt_submit = (\<lambda>payload. Inr (Some ''p1'')),
      pt_history = (\<lambda>a. history_done ''p1'' ''ComfyUI_00001_.png''),
      pt_scp_result = (\<lambda>path. Inr ''png-bytes''),
      pt_storage_upload = (\<lambda>path. None),
      pt_public_url = (\<lambda>path. Inr (''https://store.example/'' @ path))\<rparr>"

lemma rep_le:
  "rep h lo hi v j \<Longrightarrow> lo \<le> hi"
  "rep_list h lo hi vs js \<Longrightarrow> lo \<le> hi"
  "rep_fields h lo hi fs kvs \<Longrightarrow> lo \<le> hi"
  by (induction rule: rep_rep_list_rep_fields.inducts) auto

lemma rep_agree:
  "rep h lo hi v j \<Longrightarrow> (\<And>a. lo \<le> a \<Longrightarrow> a < hi \<Longrightarrow> a < length h \<Longrightarrow> a < length h2 \<and> h2 ! a = h ! a) \<Longrightarrow> rep h2 lo hi v j"
  "rep_list h lo hi vs js \<Longrightarrow> (\<And>a. lo \<le> a \<Longrightarrow> a < hi \<Longrightarrow> a < length h \<Longrightarrow> a < length h2 \<and> h2 ! a = h ! a) \<Longrightarrow> rep_list h2 lo hi vs js"
  "rep_fields h lo hi fs kvs \<Longrightarrow> (\<And>a. lo \<le> a \<Longrightarrow> a < hi \<Longrightarrow> a < length h \<Longrightarrow> a < length h2 \<and> h2 ! a = h ! a) \<Longrightarrow> rep_fields h2 lo hi fs kvs"
proof (induction arbitrary: h2 and h2 and h2 rule: rep_rep_list_rep_fields.inducts)
  case (rep_atom lo hi h a)
  then show ?case by (simp add: rep_rep_list_rep_fields.intros)
next
  case (rep_arr h lo a vs js)
  have le: "lo \<le> a" using rep_arr.hyps(1) by (rule rep_le)
  have "rep_list h2 lo a vs js" using rep_arr.prems by (intro rep_arr.IH) auto
  moreover have "a < length h2 \<and> h2 ! a = h ! a" using rep_arr.prems le rep_arr.hyps by simp
  ultimately show ?case using rep_arr.hyps by (auto intro: rep_rep_list_rep_fields.intros)
next
  case (rep_obj h lo a fs kvs)
  have le: "lo \<le> a" using rep_obj.hyps(1) by (rule rep_le)
  have "rep_fields h2 lo a fs kvs" using rep_obj.prems by (intro rep_obj.IH) auto
  moreover have "a < length h2 \<and> h2 ! a = h ! a" using rep_obj.prems le rep_obj.hyps by simp
  ultimately show ?case using rep_obj.hyps by (auto intro: rep_rep_list_rep_fields.intros)
next
  case (rep_nil lo hi h)
  then show ?case by (simp add: rep_rep_list_rep_fields.intros)
next
  case (rep_cons h lo mid v j hi vs js)
  have l1: "lo \<le> mid" using rep_cons.hyps(1) by (rule rep_le)
  have l2: "mid \<le> hi" using rep_cons.hyps(2) by (rule rep_le)
  have "rep h2 lo mid v j" using rep_cons.prems l2 by (intro rep_cons.IH) auto
  moreover have "rep_list h2 mid hi vs js" using rep_cons.prems l1 by (intro rep_cons.IH) auto
  ultimately show ?case by (rule rep_rep_list_rep_fields.intros)
next
  case (repf_nil lo hi h)
  then show ?case by (simp add: rep_rep_list_rep_fields.intros)
next
  case (repf_cons h lo mid v j hi fs kvs k)
  have l1: "lo \<le> mid" using repf_cons.hyps(1) by (rule rep_le)
  have l2: "mid \<le> hi" using repf_cons.hyps(2) by (rule rep_le)
  have "rep h2 lo mid v j" using repf_cons.prems l2 by (intro repf_cons.IH) auto
  moreover have "rep_fields h2 mid hi fs kvs" using repf_cons.prems l1 by (intro repf_cons.IH) auto
  ultimately show ?case by (rule rep_rep_list_rep_fields.intros)
qed

lemma rep_append:
  "rep h lo (length h) v j \<Longrightarrow> rep (h @ ext) lo (length h) v j"
  "rep_list h lo (length h) vs js \<Longrightarrow> rep_list (h @ ext) lo (length h) vs js"
  "rep_fields h lo (length h) fs kvs \<Longrightarrow> rep_fields (h @ ext) lo (length h) fs kvs"
  by (erule rep_agree; simp add: nth_append)+

lemma loads_rep:
  "loads h j = (h', v) \<Longrightarrow> (\<exists>ext. h' = h @ ext) \<and> rep h' (length h) (length h') v j"
  "loads_list h js = (h', vs) \<Longrightarrow> (\<exists>ext. h' = h @ ext) \<and> rep_list h' (length h) (length h') vs js"
  "loads_fields h kvs = (h', fs) \<Longrightarrow> (\<exists>ext. h' = h @ ext) \<and> rep_fields h' (length h) (length h') fs kvs"
proof (induction h j and h js and h kvs arbitrary: h' v and h' vs and h' fs
        rule: loads_loads_list_loads_fields.induct)
  case (1 h a)
  then show ?case by (auto intro: rep_atom)
next
  case (2 h js)
  obtain h1 vs where l: "loads_list h js = (h1, vs)" by (cases "loads_list h js")
  from 2(1)[OF l] obtain ext where e: "h1 = h @ ext" and r: "rep_list h1 (length h) (length h1) vs js"
    by auto
  have h': "h' = h1 @ [OList vs]" and v: "v = VRef (length h1)" using 2(2) l by auto
  have "rep_list h' (length h) (length h1) vs js" unfolding h' using r by (rule rep_append)
  then have "rep h' (length h) (Suc (length h1)) (VRef (length h1)) (JArr js)"
    by (rule rep_arr) (simp_all add: h')
  then show ?case using e by (simp add: h' v)
next
  case (3 h kvs)
  obtain h1 fs where l: "loads_fields h kvs = (h1, fs)" by (cases "loads_fields h kvs")
  from 3(1)[OF l] obtain ext where e: "h1 = h @ ext" and r: "rep_fields h1 (length h) (length h1) fs kvs"
    by auto
  have h': "h' = h1 @ [ODict fs]" and v: "v = VRef (length h1)" using 3(2) l by auto
  have "rep_fields h' (length h) (length h1) fs kvs" unfolding h' using r by (rule rep_append)
  then have "rep h' (length h) (Suc (length h1)) (VRef (length h1)) (JObj kvs)"
    by (rule rep_obj) (simp_all add: h')
  then show ?case using e by (simp add: h' v)
next
  case (4 h)
  then show ?case by (auto intro: rep_nil)
next
  case (5 h j js)
  obtain h1 v where l1: "loads h j = (h1, v)" by (cases "loads h j")
  obtain h2 vs' where l2: "loads_list h1 js = (h2, vs')" by (cases "loads_list h1 js")
  from 5(1)[OF l1] obtain e1 where e1: "h1 = h @ e1" and r1: "rep h1 (length h) (length h1) v j"
    by auto
  from 5(2)[OF l1[symmetric] l2] obtain e2 where e2: "h2 = h1 @ e2"
    and r2: "rep_list h2 (length h1) (length h2) vs' js" by auto
  have eq: "h' = h2" "vs = v # vs'" using 5(3) l1 l2 by auto
  have "rep h2 (length h) (length h1) v j" unfolding e2 using r1 by (rule rep_append)
  then have "rep_list h2 (length h) (length h2) (v # vs') (j # js)" using r2 by (rule rep_cons)
  then show ?case using e1 e2 eq by simp
next
  case (6 h)
  then show ?case by (auto intro: repf_nil)
next
  case (7 h k j kvs)
  obtain h1 v where l1: "loads h j = (h1, v)" by (cases "loads h j")
  obtain h2 fs' where l2: "loads_fields h1 kvs = (h2, fs')" by (cases "loads_fields h1 kvs")
  from 7(1)[OF l1] obtain e1 where e1: "h1 = h @ e1" and r1: "rep h1 (length h) (length h1) v j"
    by auto
  from 7(2)[OF l1[symmetric] l2] obtain e2 where e2: "h2 = h1 @ e2"
    and r2: "rep_fields h2 (length h1) (length h2) fs' kvs" by auto
  have eq: "h' = h2" "fs = (k, v) # fs'" using 7(3) l1 l2 by auto
  have "rep h2 (length h) (length h1) v j" unfolding e2 using r1 by (rule rep_append)
  then have "rep_fields h2 (length h) (length h2) ((k, v) # fs') ((k, j) # kvs)"
    using r2 by (rule repf_cons)
  then show ?case using e1 e2 eq by simp
qed


lemma rep_dumps:
  "rep h lo hi v j \<Longrightarrow> hi - lo \<le> n \<Longrightarrow> dumps n h v = Inr j"
  "rep_list h lo hi vs js \<Longrightarrow> hi - lo \<le> n \<Longrightarrow> collect (map (dumps n h) vs) = Inr js"
  "rep_fields h lo hi fs kvs \<Longrightarrow> hi - lo \<le> n \<Longrightarrow>
     collect (map (\<lambda>(k, v). dumps n h v) fs) = Inr (map snd kvs) \<and> map fst fs = map fst kvs"
proof (induction arbitrary: n and n and n rule: rep_rep_list_rep_fields.inducts)
  case (rep_atom lo hi h a)
  then show ?case by simp
next
  case (rep_arr h lo a vs js)
  have "lo \<le> a" using rep_arr.hyps(1) by (rule rep_le)
  with rep_arr.prems obtain m where n: "n = Suc m" and m: "a - lo \<le> m" by (cases n) auto
  show ?case using rep_arr.IH[OF m] rep_arr.hyps(2,3) by (simp add: n)
next
  case (rep_obj h lo a fs kvs)
  have "lo \<le> a" using rep_obj.hyps(1) by (rule rep_le)
  with rep_obj.prems obtain m where n: "n = Suc m" and m: "a - lo \<le> m" by (cases n) auto
  have "zip (map fst kvs) (map snd kvs) = kvs" by (rule zip_map_fst_snd)
  then show ?case using rep_obj.IH[OF m] rep_obj.hyps(2,3) by (simp add: n)
next
  case (rep_nil lo hi h)
  then show ?case by simp
next
  case (rep_cons h lo mid v j hi vs js)
  have "lo \<le> mid" "mid \<le> hi" using rep_cons.hyps by (auto dest: rep_le)
  then have "mid - lo \<le> n" "hi - mid \<le> n" using rep_cons.prems by auto
  then show ?case using rep_cons.IH by simp
next
  case (repf_nil lo hi h)
  then show ?case by simp
next
  case (repf_cons h lo mid v j hi fs kvs k)
  have "lo \<le> mid" "mid \<le> hi" using repf_cons.hyps by (auto dest: rep_le)
  then have "mid - lo \<le> n" "hi - mid \<le> n" using repf_cons.prems by auto
  then show ?case using repf_cons.IH by simp
qed

lemma collect_map_cong:
  "collect (map f xs) = Inr ys \<Longrightarrow> (\<And>x y. x \<in> set xs \<Longrightarrow> f x = Inr y \<Longrightarrow> g x = Inr y)
     \<Longrightarrow> collect (map g xs) = Inr ys"
proof (induction xs arbitrary: ys)
  case Nil
  then show ?case by simp
next
  case (Cons x xs)
  from Cons.prems(1) obtain y ys' where fx: "f x = Inr y" and r: "collect (map f xs) = Inr ys'"
    and ys: "ys = y # ys'"
    by (cases "f x"; cases "collect (map f xs)") auto
  have "g x = Inr y" using Cons.prems(2) fx by simp
  moreover have "collect (map g xs) = Inr ys'" using r Cons.prems(2) by (intro Cons.IH) auto
  ultimately show ?case by (simp add: ys)
qed

lemma dumps_frame:
  "dumps n h v = Inr j \<Longrightarrow> n \<le> m \<Longrightarrow> length h \<le> length h2
     \<Longrightarrow> (\<And>a. a < length h \<Longrightarrow> h2 ! a = h ! a) \<Longrightarrow> dumps m h2 v = Inr j"
proof (induction n h v arbitrary: m j rule: dumps.induct)
  case (1 n h a)
  then show ?case by simp
next
  case (2 h a)
  then show ?case by simp
next
  case (3 n h a)
  from "3.prems"(2) obtain m' where m: "m = Suc m'" and nm: "n \<le> m'" by (cases m) auto
  have a: "a < length h" using "3.prems"(1) by (simp split: if_splits)
  then have a2: "a < length h2" and eq: "h2 ! a = h ! a" using "3.prems"(3,4) by auto
  show ?case
  proof (cases "h ! a")
    case (OList vs)
    from "3.prems"(1) a OList obtain js where c: "collect (map (dumps n h) vs) = Inr js"
      and j: "j = JArr js" by (auto split: sum.splits)
    have "collect (map (dumps m' h2) vs) = Inr js"
      using c
    proof (rule collect_map_cong)
      fix x y assume "x \<in> set vs" "dumps n h x = Inr y"
      then show "dumps m' h2 x = Inr y"
        using "3.IH"(1)[OF a OList _ _ nm "3.prems"(3,4)] by simp
    qed
    then show ?thesis using a2 eq OList by (simp add: m j)
  next
    case (ODict fs)
    from "3.prems"(1) a ODict obtain js
      where c: "collect (map (\<lambda>(k, v). dumps n h v) fs) = Inr js"
      and j: "j = JObj (zip (map fst fs) js)" by (auto split: sum.splits)
    have "collect (map (\<lambda>(k, v). dumps m' h2 v) fs) = Inr js"
      using c
    proof (rule collect_map_cong)
      fix x y assume x: "x \<in> set fs" and d: "(case x of (k, v) \<Rightarrow> dumps n h v) = Inr y"
      obtain k v where kv: "x = (k, v)" by (cases x)
      have "dumps m' h2 v = Inr y"
        using "3.IH"(2)[OF a ODict x kv[symmetric] _ nm "3.prems"(3,4)] d kv by simp
      then show "(case x of (k, v) \<Rightarrow> dumps m' h2 v) = Inr y" by (simp add: kv)
    qed
    then show ?thesis using a2 eq ODict by (simp add: m j)
  qed
qed

inductive_cases rep_objE: "rep h lo hi v (JObj kvs)"
inductive_cases repf_consE: "rep_fields h lo hi fs ((k, j) # kvs)"
inductive_cases repf_nilE: "rep_fields h lo hi fs []"

lemma rep_fields_keys:
  "rep_fields h lo hi fs kvs \<Longrightarrow> map_of kvs k = None \<Longrightarrow> map_of fs k = None"
proof (induction kvs arbitrary: fs lo)
  case Nil
  then show ?case by (auto elim: repf_nilE)
next
  case (Cons p kvs)
  obtain k0 j0 where p: "p = (k0, j0)" by (cases p)
  from Cons.prems(1) obtain v0 fs' mid where fs: "fs = (k0, v0) # fs'"
    and r: "rep_fields h mid hi fs' kvs"
    unfolding p by (auto elim: repf_consE)
  show ?case using Cons.IH[OF r] Cons.prems(2) by (auto simp: p fs split: if_splits)
qed

lemma rep_fields_child:
  "rep_fields h lo hi fs kvs \<Longrightarrow> map_of kvs k = Some jc \<Longrightarrow>
     \<exists>vc m1 m2. map_of fs k = Some vc \<and> rep h m1 m2 vc jc \<and> lo \<le> m1 \<and> m2 \<le> hi \<and>
        (\<forall>h2 jc'. rep h2 m1 m2 vc jc' \<and> length h2 = length h \<and>
                   (\<forall>a. a < m1 \<or> m2 \<le> a \<longrightarrow> h2 ! a = h ! a)
             \<longrightarrow> rep_fields h2 lo hi fs (AList.update k jc' kvs))"
proof (induction kvs arbitrary: fs lo)
  case Nil
  then show ?case by simp
next
  case (Cons p kvs)
  obtain k0 j0 where p: "p = (k0, j0)" by (cases p)
  from Cons.prems(1) obtain v0 fs' mid where fs: "fs = (k0, v0) # fs'"
    and r0: "rep h lo mid v0 j0" and r: "rep_fields h mid hi fs' kvs"
    unfolding p by (auto elim: repf_consE)
  have l1: "lo \<le> mid" using r0 by (rule rep_le)
  have l2: "mid \<le> hi" using r by (rule rep_le)
  show ?case
  proof (cases "k0 = k")
    case True
    then have jc: "jc = j0" using Cons.prems(2) by (simp add: p)
    have "rep_fields h2 lo hi fs (AList.update k jc' (p # kvs))"
      if a: "rep h2 lo mid v0 jc'" "length h2 = length h" "\<forall>a. a < lo \<or> mid \<le> a \<longrightarrow> h2 ! a = h ! a"
      for h2 jc'
    proof -
      have "rep_fields h2 mid hi fs' kvs" using r by (rule rep_agree) (use a in auto)
      with a(1) have "rep_fields h2 lo hi ((k0, v0) # fs') ((k0, jc') # kvs)"
        by (rule repf_cons)
      then show ?thesis using True by (simp add: p fs)
    qed
    then have "map_of fs k = Some v0 \<and> rep h lo mid v0 jc \<and> lo \<le> lo \<and> mid \<le> hi \<and>
        (\<forall>h2 jc'. rep h2 lo mid v0 jc' \<and> length h2 = length h \<and>
                   (\<forall>a. a < lo \<or> mid \<le> a \<longrightarrow> h2 ! a = h ! a)
             \<longrightarrow> rep_fields h2 lo hi fs (AList.update k jc' (p # kvs)))"
      using True r0 l2 by (simp add: fs jc)
    then show ?thesis by blast
  next
    case False
    then have "map_of kvs k = Some jc" using Cons.prems(2) by (simp add: p)
    from Cons.IH[OF r this] obtain vc m1 m2 where vc: "map_of fs' k = Some vc"
      and rc: "rep h m1 m2 vc jc" and b: "mid \<le> m1" "m2 \<le> hi"
      and upd: "\<And>h2 jc'. rep h2 m1 m2 vc jc' \<Longrightarrow> length h2 = length h \<Longrightarrow>
                   (\<forall>a. a < m1 \<or> m2 \<le> a \<longrightarrow> h2 ! a = h ! a)
             \<Longrightarrow> rep_fields h2 mid hi fs' (AList.update k jc' kvs)"
      by blast
    have "rep_fields h2 lo hi fs (AList.update k jc' (p # kvs))"
      if a: "rep h2 m1 m2 vc jc'" "length h2 = length h" "\<forall>a. a < m1 \<or> m2 \<le> a \<longrightarrow> h2 ! a = h ! a"
      for h2 jc'
    proof -
      have "rep h2 lo mid v0 j0" using r0 by (rule rep_agree) (use a b in auto)
      moreover have "rep_fields h2 mid hi fs' (AList.update k jc' kvs)" using a by (rule upd)
      ultimately have "rep_fields h2 lo hi ((k0, v0) # fs') ((k0, j0) # AList.update k jc' kvs)"
        by (rule repf_cons)
      then show ?thesis using False by (simp add: p fs)
    qed
    then have "map_of fs k = Some vc \<and> rep h m1 m2 vc jc \<and> lo \<le> m1 \<and> m2 \<le> hi \<and>
        (\<forall>h2 jc'. rep h2 m1 m2 vc jc' \<and> length h2 = length h \<and>
                   (\<forall>a. a < m1 \<or> m2 \<le> a \<longrightarrow> h2 ! a = h ! a)
             \<longrightarrow> rep_fields h2 lo hi fs (AList.update k jc' (p # kvs)))"
      using False vc rc b l1 by (simp add: fs)
    then show ?thesis by blast
  qed
qed

lemma rep_fields_update_atom:
  "rep_fields h lo hi fs kvs \<Longrightarrow>
     rep_fields h lo hi (AList.update k (VAtom x) fs) (AList.update k (JAtom x) kvs)"
proof (induction kvs arbitrary: fs lo)
  case Nil
  then have "fs = []" "lo \<le> hi" by (auto elim: repf_nilE)
  moreover have "rep h lo lo (VAtom x) (JAtom x)" by (simp add: rep_atom)
  ultimately show ?case by (auto intro: repf_cons repf_nil)
next
  case (Cons p kvs)
  obtain k0 j0 where p: "p = (k0, j0)" by (cases p)
  from Cons.prems(1) obtain v0 fs' mid where fs: "fs = (k0, v0) # fs'"
    and r0: "rep h lo mid v0 j0" and r: "rep_fields h mid hi fs' kvs"
    unfolding p by (auto elim: repf_consE)
  have l1: "lo \<le> mid" using r0 by (rule rep_le)
  show ?case
  proof (cases "k0 = k")
    case True
    have "rep h lo mid (VAtom x) (JAtom x)" using l1 by (rule rep_atom)
    then have "rep_fields h lo hi ((k, VAtom x) # fs') ((k, JAtom x) # kvs)" using r
      by (rule repf_cons)
    then show ?thesis using True by (simp add: p fs)
  next
    case False
    have "rep_fields h lo hi ((k0, v0) # AList.update k (VAtom x) fs')
            ((k0, j0) # AList.update k (JAtom x) kvs)"
      using r0 Cons.IH[OF r] by (rule repf_cons)
    then show ?thesis using False by (simp add: p fs)
  qed
qed


inductive_cases rep_atomE: "rep h lo hi v (JAtom a)"
inductive_cases rep_arrE: "rep h lo hi v (JArr js)"

lemma rep_getitem_err:
  "rep h lo hi v j \<Longrightarrow> jget j k = Inl e \<Longrightarrow> getitem h v k = Inl e"
proof (cases j)
  case (JAtom a)
  assume "rep h lo hi v j" "jget j k = Inl e"
  then show ?thesis using JAtom by (auto elim!: rep_atomE)
next
  case (JArr js)
  assume "rep h lo hi v j" "jget j k = Inl e"
  then show ?thesis using JArr by (auto elim!: rep_arrE simp: deref_def)
next
  case (JObj kvs)
  assume r: "rep h lo hi v j" and g: "jget j k = Inl e"
  from r obtain a fs where v: "v = VRef a" and a: "a < length h" "h ! a = ODict fs"
    and rf: "rep_fields h lo a fs kvs" unfolding JObj by (auto elim: rep_objE)
  from g have "map_of kvs k = None" "e = KeyError k" by (auto simp: JObj split: option.splits)
  then show ?thesis using rep_fields_keys[OF rf] a by (simp add: v deref_def)
qed

lemma rep_getitem:
  assumes r: "rep h lo hi v j" and g: "jget j k = Inr jc"
  shows "\<exists>vc m1 m2. getitem h v k = Inr vc \<and> rep h m1 m2 vc jc \<and> lo \<le> m1 \<and> m2 < hi \<and>
           (\<forall>h2 jc'. rep h2 m1 m2 vc jc' \<and> length h2 = length h \<and>
                   (\<forall>a. a < m1 \<or> m2 \<le> a \<longrightarrow> h2 ! a = h ! a)
             \<longrightarrow> (\<exists>j'. jset j k jc' = Inr j' \<and> rep h2 lo hi v j'))"
proof -
  from g obtain kvs where j: "j = JObj kvs" and m: "map_of kvs k = Some jc"
    by (cases j) (auto split: option.splits)
  from r obtain a fs where v: "v = VRef a" and hi: "hi = Suc a" and a: "a < length h" "h ! a = ODict fs"
    and rf: "rep_fields h lo a fs kvs" unfolding j by (auto elim: rep_objE)
  from rep_fields_child[OF rf m] obtain vc m1 m2 where vc: "map_of fs k = Some vc"
    and rc: "rep h m1 m2 vc jc" and b: "lo \<le> m1" "m2 \<le> a"
    and upd: "\<And>h2 jc'. rep h2 m1 m2 vc jc' \<Longrightarrow> length h2 = length h \<Longrightarrow>
                   (\<forall>a. a < m1 \<or> m2 \<le> a \<longrightarrow> h2 ! a = h ! a)
             \<Longrightarrow> rep_fields h2 lo a fs (AList.update k jc' kvs)"
    by blast
  have "\<exists>j'. jset j k jc' = Inr j' \<and> rep h2 lo hi v j'"
    if p: "rep h2 m1 m2 vc jc'" "length h2 = length h" "\<forall>a. a < m1 \<or> m2 \<le> a \<longrightarrow> h2 ! a = h ! a"
    for h2 jc'
  proof -
    have "rep_fields h2 lo a fs (AList.update k jc' kvs)" using p by (rule upd)
    moreover have "a < length h2" "h2 ! a = ODict fs" using p(2,3) a b by auto
    ultimately have "rep h2 lo (Suc a) (VRef a) (JObj (AList.update k jc' kvs))"
      by (rule rep_obj)
    then show ?thesis by (simp add: j v hi)
  qed
  then have "getitem h v k = Inr vc \<and> rep h m1 m2 vc jc \<and> lo \<le> m1 \<and> m2 < hi \<and>
           (\<forall>h2 jc'. rep h2 m1 m2 vc jc' \<and> length h2 = length h \<and>
                   (\<forall>a. a < m1 \<or> m2 \<le> a \<longrightarrow> h2 ! a = h ! a)
             \<longrightarrow> (\<exists>j'. jset j k jc' = Inr j' \<and> rep h2 lo hi v j'))"
    using vc rc b a by (simp add: v hi deref_def)
  then show ?thesis by blast
qed

lemma rep_setitem_err:
  "rep h lo hi v j \<Longrightarrow> jset j k y = Inl e \<Longrightarrow> setitem h v k x = Inl e"
  by (cases j) (auto elim!: rep_atomE rep_arrE simp: deref_def)

lemma rep_setitem:
  assumes r: "rep h lo hi v j" and s: "jset j k (JAtom x) = Inr j'"
  shows "\<exists>h2. setitem h v k (VAtom x) = Inr h2 \<and> rep h2 lo hi v j' \<and> length h2 = length h \<and>
           (\<forall>a. a < lo \<or> hi \<le> a \<longrightarrow> h2 ! a = h ! a)"
proof -
  from s obtain kvs where j: "j = JObj kvs" and j': "j' = JObj (AList.update k (JAtom x) kvs)"
    by (cases j) auto
  from r obtain a fs where v: "v = VRef a" and hi: "hi = Suc a" and a: "a < length h" "h ! a = ODict fs"
    and rf: "rep_fields h lo a fs kvs" unfolding j by (auto elim: rep_objE)
  define h2 where "h2 = h[a := ODict (AList.update k (VAtom x) fs)]"
  have "rep_fields h2 lo a fs kvs" using rf by (rule rep_agree) (simp add: h2_def)
  then have "rep_fields h2 lo a (AList.update k (VAtom x) fs) (AList.update k (JAtom x) kvs)"
    by (rule rep_fields_update_atom)
  moreover have "a < length h2" "h2 ! a = ODict (AList.update k (VAtom x) fs)"
    using a by (simp_all add: h2_def)
  ultimately have "rep h2 lo (Suc a) (VRef a) (JObj (AList.update k (JAtom x) kvs))"
    by (rule rep_obj)
  moreover have "setitem h v k (VAtom x) = Inr h2" using a by (simp add: v deref_def h2_def)
  moreover have "length h2 = length h" by (simp add: h2_def)
  moreover have "\<forall>b. b < lo \<or> hi \<le> b \<longrightarrow> h2 ! b = h ! b"
    using rep_le(3)[OF rf] by (auto simp: h2_def hi)
  ultimately show ?thesis by (simp add: j' v hi)
qed

lemma bind_slot_err:
  assumes r: "rep h lo hi w j" and b: "jbind j node slot x = Inl e"
  shows "bind_slot h w node slot x = Inl e"
proof (cases "jget j node")
  case (Inl e1)
  then show ?thesis using b rep_getitem_err[OF r Inl] by (simp add: jbind_def bind_slot_def)
next
  case (Inr n)
  from rep_getitem[OF r Inr] obtain vn m1 m2 where gn: "getitem h w node = Inr vn"
    and rn: "rep h m1 m2 vn n" by blast
  show ?thesis
  proof (cases "jget n ''inputs''")
    case (Inl e1)
    then show ?thesis using b Inr gn rep_getitem_err[OF rn Inl] by (simp add: jbind_def bind_slot_def)
  next
    case inp: (Inr i)
    from rep_getitem[OF rn inp] obtain vi p1 p2 where gi: "getitem h vn ''inputs'' = Inr vi"
      and ri: "rep h p1 p2 vi i" by blast
    show ?thesis
    proof (cases "jset i slot (JAtom x)")
      case (Inl e1)
      have "e1 = e" using b Inr inp Inl by (simp add: jbind_def)
      then show ?thesis using gn gi rep_setitem_err[OF ri Inl] by (simp add: bind_slot_def)
    next
      case si: (Inr i')
      from inp obtain kn where "n = JObj kn" by (cases n) auto
      moreover from Inr obtain kj where "j = JObj kj" by (cases j) auto
      ultimately have False using b Inr inp si by (simp add: jbind_def)
      then show ?thesis ..
    qed
  qed
qed

lemma bind_slot_rep:
  assumes r: "rep h lo hi w j" and b: "jbind j node slot x = Inr j'"
  shows "\<exists>h2. bind_slot h w node slot x = Inr h2 \<and> rep h2 lo hi w j' \<and> length h2 = length h \<and>
           (\<forall>a. a < lo \<or> hi \<le> a \<longrightarrow> h2 ! a = h ! a)"
proof -
  from b obtain n i i' n' where gn: "jget j node = Inr n" and gi: "jget n ''inputs'' = Inr i"
    and si: "jset i slot (JAtom x) = Inr i'" and sn: "jset n ''inputs'' i' = Inr n'"
    and sj: "jset j node n' = Inr j'"
    by (auto simp: jbind_def split: sum.splits)
  from rep_getitem[OF r gn] obtain vn m1 m2 where hn: "getitem h w node = Inr vn"
    and rn: "rep h m1 m2 vn n" and bn: "lo \<le> m1" "m2 < hi"
    and un: "\<And>h2 jc'. rep h2 m1 m2 vn jc' \<Longrightarrow> length h2 = length h \<Longrightarrow>
                   (\<forall>a. a < m1 \<or> m2 \<le> a \<longrightarrow> h2 ! a = h ! a)
             \<Longrightarrow> (\<exists>j'. jset j node jc' = Inr j' \<and> rep h2 lo hi w j')"
    by blast
  from rep_getitem[OF rn gi] obtain vi p1 p2 where hi': "getitem h vn ''inputs'' = Inr vi"
    and ri: "rep h p1 p2 vi i" and bi: "m1 \<le> p1" "p2 < m2"
    and ui: "\<And>h2 jc'. rep h2 p1 p2 vi jc' \<Longrightarrow> length h2 = length h \<Longrightarrow>
                   (\<forall>a. a < p1 \<or> p2 \<le> a \<longrightarrow> h2 ! a = h ! a)
             \<Longrightarrow> (\<exists>j'. jset n ''inputs'' jc' = Inr j' \<and> rep h2 m1 m2 vn j')"
    by blast
  from rep_setitem[OF ri si] obtain h2 where s: "setitem h vi slot (VAtom x) = Inr h2"
    and r2: "rep h2 p1 p2 vi i'" and len: "length h2 = length h"
    and fr: "\<forall>a. a < p1 \<or> p2 \<le> a \<longrightarrow> h2 ! a = h ! a" by blast
  from ui[OF r2 len fr] sn have rn2: "rep h2 m1 m2 vn n'" by auto
  have fr2: "\<forall>a. a < m1 \<or> m2 \<le> a \<longrightarrow> h2 ! a = h ! a" using fr bi by auto
  from un[OF rn2 len fr2] sj have "rep h2 lo hi w j'" by auto
  moreover have "bind_slot h w node slot x = Inr h2" using hn hi' s by (simp add: bind_slot_def)
  moreover have "\<forall>a. a < lo \<or> hi \<le> a \<longrightarrow> h2 ! a = h ! a" using fr2 bn by auto
  ultimately show ?thesis using len by blast
qed

section \<open>What each step leaves alone\<close>

lemma say_db [simp]:
  "edit_tests (say w l) = edit_tests w"
  "carousel_images (say w l) = carousel_images w"
  "comfyui_batches (say w l) = comfyui_batches w"
  by (simp_all add: say_def)

lemma sleep_db [simp]:
  "edit_tests (sleep w n) = edit_tests w"
  "carousel_images (sleep w n) = carousel_images w"
  "comfyui_batches (sleep w n) = comfyui_batches w"
  by (simp_all add: sleep_def)

lemma wait_query_db [simp]:
  "edit_tests (wait_query w n) = edit_tests w" "carousel_images (wait_query w n) = carousel_images w"
  "comfyui_batches (wait_query w n) = comfyui_batches w"
  by (simp_all add: wait_query_def)

lemma update_batch_db [simp]:
  "edit_tests (update_batch b f w) = edit_tests w"
  "carousel_images (update_batch b f w) = carousel_images w"
  by (simp_all add: update_batch_def)

lemma upload_model_db:
  "upload_model env w url = (w', r) \<Longrightarrow>
     edit_tests w' = edit_tests w \<and> carousel_images w' = carousel_images w
     \<and> comfyui_batches w' = comfyui_batches w"
  by (auto simp: upload_model_def Let_def split: sum.splits option.splits)

lemma make_pose_folder_db:
  "make_pose_folder env w = (w', r) \<Longrightarrow>
     edit_tests w' = edit_tests w \<and> carousel_images w' = carousel_images w
     \<and> comfyui_batches w' = comfyui_batches w"
  by (auto simp: make_pose_folder_def Let_def split: option.splits)

lemma upload_poses_db:
  "upload_poses env pf idx items w = (w', r) \<Longrightarrow>
     edit_tests w' = edit_tests w \<and> carousel_images w' = carousel_images w
     \<and> comfyui_batches w' = comfyui_batches w"
proof (induction items arbitrary: idx w)
  case Nil
  then show ?case by simp
next
  case (Cons img rest)
  show ?case
  proof (cases "get_pose env idx (img_url img)")
    case (Inl e)
    then show ?thesis using Cons.prems by simp
  next
    case (Inr content)
    show ?thesis
    proof (cases "scp_pose env idx (input_dir @ pf @ ''/'' @ pose_name idx @ ''.jpg'')")
      case None
      then have "upload_poses env pf (idx + 1) rest
          (w\<lparr>render_input := render_input w
                @ [(input_dir @ pf @ ''/'' @ pose_name idx @ ''.jpg'', content)]\<rparr>) = (w', r)"
        using Cons.prems Inr by (simp add: Let_def)
      from Cons.IH[OF this] show ?thesis by simp
    next
      case (Some e)
      then show ?thesis using Cons.prems Inr by (simp add: Let_def)
    qed
  qed
qed

lemma submit_all_db:
  "submit_all env bid mf pf tmpl n i items h pids w = (w', r) \<Longrightarrow>
     edit_tests w' = edit_tests w \<and> carousel_images w' = carousel_images w
     \<and> comfyui_batches w' = comfyui_batches w"
proof (induction items arbitrary: i h pids w)
  case Nil
  then show ?case by simp
next
  case (Cons img rest)
  show ?case
  proof (cases "instantiate h tmpl mf pf i (randint env i) bid")
    case (Inl e)
    then show ?thesis using Cons.prems by simp
  next
    case (Inr p)
    obtain h1 g where p: "p = (h1, g)" by (cases p)
    show ?thesis
    proof (cases "json_dumps (h1 @ [ODict [(''prompt'', g)]]) (VRef (length h1))")
      case (Inl e)
      then show ?thesis using Cons.prems Inr p by (simp add: Let_def)
    next
      case payload: (Inr payload)
      show ?thesis
      proof (cases "post_prompt env i")
        case (PostRaises e)
        then show ?thesis using Cons.prems Inr p payload by (auto simp: Let_def)
      next
        case PostNoId
        then have "submit_all env bid mf pf tmpl n (i + 1) rest (h1 @ [ODict [(''prompt'', g)]])
            pids (sleep (w\<lparr>posted := posted w @ [payload]\<rparr>) 1) = (w', r)"
          using Cons.prems Inr p payload by (simp add: Let_def)
        from Cons.IH[OF this] show ?thesis by simp
      next
        case (PostId pid)
        then have "submit_all env bid mf pf tmpl n (i + 1) rest (h1 @ [ODict [(''prompt'', g)]])
            (pids @ [pid])
            (sleep (say (w\<lparr>posted := posted w @ [payload]\<rparr>) (LogPoseTriggered (i + 1) n pid)) 1)
            = (w', r)"
          using Cons.prems Inr p payload by (simp add: Let_def)
        from Cons.IH[OF this] show ?thesis by simp
      qed
    qed
  qed
qed

lemma trigger_workflows_db:
  "trigger_workflows env bid mf pf items w = (w', r) \<Longrightarrow>
     edit_tests w' = edit_tests w \<and> carousel_images w' = carousel_images w
     \<and> comfyui_batches w' = comfyui_batches w"
proof (cases "load_template env")
  case (Inl e)
  assume "trigger_workflows env bid mf pf items w = (w', r)"
  then show ?thesis using Inl by (simp add: trigger_workflows_def)
next
  case (Inr doc)
  assume a: "trigger_workflows env bid mf pf items w = (w', r)"
  obtain h t where l: "loads [] doc = (h, t)" by (cases "loads [] doc")
  obtain w1 r1 where s: "submit_all env bid mf pf t (length items) 0 items h []
      (say w (LogTriggering (length items))) = (w1, r1)"
    by (cases "submit_all env bid mf pf t (length items) 0 items h []
      (say w (LogTriggering (length items)))")
  from submit_all_db[OF s] have "edit_tests w1 = edit_tests w \<and>
     carousel_images w1 = carousel_images w \<and> comfyui_batches w1 = comfyui_batches w"
    by simp
  moreover have "w' = w1 \<or> (\<exists>l. w' = say w1 l)"
    using a Inr l s by (cases r1) (auto simp: trigger_workflows_def)
  ultimately show ?thesis by auto
qed

lemma poll_job_db:
  "poll_job env idx pid attempt w = (w', r) \<Longrightarrow>
     edit_tests w' = edit_tests w \<and> carousel_images w' = carousel_images w
     \<and> comfyui_batches w' = comfyui_batches w"
proof (induction env idx pid attempt w rule: poll_job.induct)
  case (1 env idx pid attempt w)
  show ?case
  proof (cases "attempt < max_attempts")
    case False
    then show ?thesis using "1.prems" by (simp add: poll_job.simps)
  next
    case True
    show ?thesis
    proof (cases "check_history (get_history env idx (attempt + 1)) pid")
      case Pending
      from "1.IH"(1)[OF True refl refl refl Pending] "1.prems" True Pending
      show ?thesis by (simp add: poll_job.simps[of env idx pid attempt w] Let_def split: if_splits)
    next
      case (Done f)
      then show ?thesis using "1.prems" True
        by (auto simp: poll_job.simps[of env idx pid attempt w] Let_def)
    next
      case (Failed e)
      from "1.IH"(2)[OF True refl refl refl Failed] "1.prems" True Failed
      show ?thesis by (simp add: poll_job.simps[of env idx pid attempt w] Let_def)
    qed
  qed
qed

lemma download_and_store_db:
  "download_and_store env bid idx w = (w', r) \<Longrightarrow>
     edit_tests w' = edit_tests w \<and> carousel_images w' = carousel_images w
     \<and> comfyui_batches w' = comfyui_batches w"
  by (auto simp: download_and_store_def Let_def say_def split: sum.splits option.splits)

lemma collect_results_db:
  "collect_results env bid n idx pids acc w = (w', r) \<Longrightarrow>
     edit_tests w' = edit_tests w \<and> carousel_images w' = carousel_images w
     \<and> comfyui_batches w' = comfyui_batches w"
proof (induction pids arbitrary: idx acc w)
  case Nil
  then show ?case by simp
next
  case (Cons pid rest)
  obtain w1 f k where p: "poll_job env idx pid 0 (say w (LogPolling (idx + 1) n pid)) = (w1, f, k)"
    by (cases "poll_job env idx pid 0 (say w (LogPolling (idx + 1) n pid))") auto
  have f1: "edit_tests w1 = edit_tests w \<and> carousel_images w1 = carousel_images w
     \<and> comfyui_batches w1 = comfyui_batches w"
    using poll_job_db[OF p] by simp
  show ?case
  proof (cases "truthy f")
    case False
    then have "collect_results env bid n (idx + 1) rest acc (say w1 (LogTimedOut (idx + 1))) = (w', r)"
      using Cons.prems p by simp
    from Cons.IH[OF this] f1 show ?thesis by simp
  next
    case True
    obtain w2 d where d: "download_and_store env bid idx (say w1 (LogPoseComplete (idx + 1))) = (w2, d)"
      by (cases "download_and_store env bid idx (say w1 (LogPoseComplete (idx + 1)))")
    have f2: "edit_tests w2 = edit_tests w \<and> carousel_images w2 = carousel_images w
     \<and> comfyui_batches w2 = comfyui_batches w"
      using download_and_store_db[OF d] f1 by simp
    show ?thesis
    proof (cases d)
      case (Inl e)
      then have "collect_results env bid n (idx + 1) rest acc
          (say w2 (LogDownloadError (idx + 1) e)) = (w', r)"
        using Cons.prems p True d by simp
      from Cons.IH[OF this] f2 show ?thesis by simp
    next
      case (Inr url)
      then have "collect_results env bid n (idx + 1) rest (acc @ [url]) w2 = (w', r)"
        using Cons.prems p True d by simp
      from Cons.IH[OF this] f2 show ?thesis by simp
    qed
  qed
qed

lemma finish_batch_edit_tests:
  "finish_batch env bid pids done w = (w', r) \<Longrightarrow>
     edit_tests w' = edit_tests w \<and> carousel_images w' = carousel_images w"
  by (auto simp: finish_batch_def split: if_splits)

lemma fail_batch_edit_tests:
  "fail_batch env bid e w = (w', r) \<Longrightarrow>
     edit_tests w' = edit_tests w \<and> carousel_images w' = carousel_images w"
  by (auto simp: fail_batch_def)

lemma insert_batch_edit_tests:
  "insert_batch env w tid test items = Inr w' \<Longrightarrow>
     edit_tests w' = edit_tests w \<and> carousel_images w' = carousel_images w"
  by (auto simp: insert_batch_def split: if_splits)

section \<open>Facts about the concrete inputs\<close>

lemma demo_find: "find (\<lambda>r. et_id r = ''t1'') (edit_tests (demo_world imgs)) = Some demo_test"
  by (simp add: demo_world_def demo_test_def)

lemma demo_no_siblings: "select_other_images (demo_world [demo_image ''i0'' 0]) demo_test = []"
  by (simp add: select_other_images_def demo_world_def demo_test_def demo_image_def)

lemma demo_siblings:
  "select_other_images (demo_world [demo_image ''i0'' 0, demo_image ''i1'' 1]) demo_test
     = [demo_image ''i1'' 1]"
  by (simp add: select_other_images_def demo_world_def demo_test_def demo_image_def)

lemma demo_siblings3:
  "select_other_images world_three demo_test = [demo_image ''i1'' 1, demo_image ''i2'' 2]"
  by (simp add: select_other_images_def world_three_def demo_world_def demo_test_def demo_image_def)

lemma demo_find3: "find (\<lambda>r. et_id r = ''t1'') (edit_tests world_three) = Some demo_test"
  by (simp add: world_three_def demo_find)

lemma demo_fresh3: "new_batch_id (demo_env t p h) \<notin> set (map b_id (comfyui_batches world_three))"
  by (simp add: world_three_def demo_world_def)

section \<open>The shape of a batch run\<close>

lemma submit_all_length:
  "submit_all env bid mf pf tmpl n i items h pids w = (w', Inr pids') \<Longrightarrow>
     length pids' \<le> length pids + length items"
proof (induction items arbitrary: i h pids w)
  case Nil
  then show ?case by simp
next
  case (Cons img rest)
  show ?case
  proof (cases "instantiate h tmpl mf pf i (randint env i) bid")
    case (Inl e)
    then show ?thesis using Cons.prems by simp
  next
    case (Inr p)
    obtain h1 g where p: "p = (h1, g)" by (cases p)
    show ?thesis
    proof (cases "json_dumps (h1 @ [ODict [(''prompt'', g)]]) (VRef (length h1))")
      case (Inl e)
      then show ?thesis using Cons.prems Inr p by (simp add: Let_def)
    next
      case payload: (Inr payload)
      show ?thesis
      proof (cases "post_prompt env i")
        case (PostRaises e)
        then show ?thesis using Cons.prems Inr p payload by (auto simp: Let_def)
      next
        case PostNoId
        then have "submit_all env bid mf pf tmpl n (i + 1) rest (h1 @ [ODict [(''prompt'', g)]])
            pids (sleep (w\<lparr>posted := posted w @ [payload]\<rparr>) 1) = (w', Inr pids')"
          using Cons.prems Inr p payload by (simp add: Let_def)
        from Cons.IH[OF this] show ?thesis by simp
      next
        case (PostId pid)
        then have "submit_all env bid mf pf tmpl n (i + 1) rest (h1 @ [ODict [(''prompt'', g)]])
            (pids @ [pid])
            (sleep (say (w\<lparr>posted := posted w @ [payload]\<rparr>) (LogPoseTriggered (i + 1) n pid)) 1)
            = (w', Inr pids')"
          using Cons.prems Inr p payload by (simp add: Let_def)
        from Cons.IH[OF this] show ?thesis by simp
      qed
    qed
  qed
qed

lemma trigger_workflows_length:
  assumes "trigger_workflows env bid mf pf items w = (w', Inr pids)"
  shows "length pids \<le> length items"
proof -
  from assms obtain doc where d: "load_template env = Inr doc"
    by (cases "load_template env") (auto simp: trigger_workflows_def)
  obtain h t where l: "loads [] doc = (h, t)" by (cases "loads [] doc")
  obtain w1 r1 where s: "submit_all env bid mf pf t (length items) 0 items h []
      (say w (LogTriggering (length items))) = (w1, r1)"
    by (cases "submit_all env bid mf pf t (length items) 0 items h []
      (say w (LogTriggering (length items)))")
  from assms d l s have "r1 = Inr pids" by (cases r1) (auto simp: trigger_workflows_def)
  with submit_all_length[of env bid mf pf t "length items" 0 items h "[]" _ w1 pids] s
  show ?thesis by simp
qed

lemma collect_results_length:
  "collect_results env bid n idx pids acc w = (w', done) \<Longrightarrow>
     length done \<le> length acc + length pids"
proof (induction pids arbitrary: idx acc w)
  case Nil
  then show ?case by simp
next
  case (Cons pid rest)
  obtain w1 f k where p: "poll_job env idx pid 0 (say w (LogPolling (idx + 1) n pid)) = (w1, f, k)"
    by (cases "poll_job env idx pid 0 (say w (LogPolling (idx + 1) n pid))") auto
  show ?case
  proof (cases "truthy f")
    case False
    then have "collect_results env bid n (idx + 1) rest acc (say w1 (LogTimedOut (idx + 1)))
        = (w', done)"
      using Cons.prems p by simp
    from Cons.IH[OF this] show ?thesis by simp
  next
    case True
    obtain w2 d where d: "download_and_store env bid idx (say w1 (LogPoseComplete (idx + 1))) = (w2, d)"
      by (cases "download_and_store env bid idx (say w1 (LogPoseComplete (idx + 1)))")
    show ?thesis
    proof (cases d)
      case (Inl e)
      then have "collect_results env bid n (idx + 1) rest acc
          (say w2 (LogDownloadError (idx + 1) e)) = (w', done)"
        using Cons.prems p True d by simp
      from Cons.IH[OF this] show ?thesis by simp
    next
      case (Inr url)
      then have "collect_results env bid n (idx + 1) rest (acc @ [url]) w2 = (w', done)"
        using Cons.prems p True d by simp
      from Cons.IH[OF this] show ?thesis by simp
    qed
  qed
qed

lemma run_batch_cases:
  assumes "run_batch env w test items bid = (w', r)"
  shows "edit_tests w' = edit_tests w \<and> carousel_images w' = carousel_images w \<and>
    ((\<exists>e. r = Inl e \<and> comfyui_batches w' = comfyui_batches w) \<or>
     (\<exists>imgs resp. r = Inr resp \<and> length imgs \<le> length items
        \<and> comfyui_batches w' =
            map (\<lambda>b. if b_id b = bid then final_row env imgs b else b) (comfyui_batches w)))"
proof -
  obtain w1 r1 where s1: "upload_model env w (et_nanabana_result_url test) = (w1, r1)"
    by (cases "upload_model env w (et_nanabana_result_url test)")
  note f1 = upload_model_db[OF s1]
  show ?thesis
  proof (cases r1)
    case (Inl e)
    then show ?thesis using assms s1 f1 by (auto simp: run_batch_def)
  next
    case mf: (Inr mf)
    obtain w2 r2 where s2: "make_pose_folder env w1 = (w2, r2)" by (cases "make_pose_folder env w1")
    note f2 = make_pose_folder_db[OF s2]
    show ?thesis
    proof (cases r2)
      case (Inl e)
      then show ?thesis using assms s1 mf s2 f1 f2 by (auto simp: run_batch_def)
    next
      case pf: (Inr pf)
      obtain w3 r3 where s3: "upload_poses env pf 0 items
          (say w2 (LogDownloadingPoses (length items))) = (w3, r3)"
        by (cases "upload_poses env pf 0 items (say w2 (LogDownloadingPoses (length items)))")
      note f3 = upload_poses_db[OF s3]
      show ?thesis
      proof (cases r3)
        case (Some e)
        then show ?thesis using assms s1 mf s2 pf s3 f1 f2 f3 by (auto simp: run_batch_def)
      next
        case None
        obtain w4 r4 where s4: "trigger_workflows env bid mf pf items
            (say w3 (LogPosesUploaded pf)) = (w4, r4)"
          by (cases "trigger_workflows env bid mf pf items (say w3 (LogPosesUploaded pf))")
        note f4 = trigger_workflows_db[OF s4]
        show ?thesis
        proof (cases r4)
          case (Inl e)
          then show ?thesis using assms s1 mf s2 pf s3 None s4 f1 f2 f3 f4
            by (auto simp: run_batch_def)
        next
          case pids: (Inr pids)
          have lp: "length pids \<le> length items"
            using trigger_workflows_length s4 pids by blast
          obtain w5 imgs where s5: "collect_results env bid (length pids) 0 pids []
              (say (update_batch bid (\<lambda>b. b\<lparr>b_status := ''processing''\<rparr>) w4) LogWaiting)
              = (w5, imgs)"
            by (cases "collect_results env bid (length pids) 0 pids []
              (say (update_batch bid (\<lambda>b. b\<lparr>b_status := ''processing''\<rparr>) w4) LogWaiting)")
          note f5 = collect_results_db[OF s5]
          have li: "length imgs \<le> length items"
            using collect_results_length[OF s5] lp by simp
          obtain w6 resp where s6: "finish_batch env bid pids imgs w5 = (w6, resp)"
            by (cases "finish_batch env bid pids imgs w5")
          have r: "w' = w6" "r = Inr resp"
            using assms s1 mf s2 pf s3 None s4 pids s5 s6 by (simp_all add: run_batch_def)
          have t5: "comfyui_batches w5 =
              map (\<lambda>b. if b_id b = bid then b\<lparr>b_status := ''processing''\<rparr> else b)
                (comfyui_batches w)"
            using f1 f2 f3 f4 f5 by (simp add: update_batch_def)
          have "comfyui_batches w6 =
              map (\<lambda>b. if b_id b = bid then final_row env imgs b else b) (comfyui_batches w)"
            using s6 t5 by (auto simp: finish_batch_def final_row_def update_batch_def say_def
                  split: if_splits)
          moreover have "edit_tests w6 = edit_tests w \<and> carousel_images w6 = carousel_images w"
            using finish_batch_edit_tests[OF s6] f1 f2 f3 f4 f5 by simp
          ultimately show ?thesis using r li by blast
        qed
      qed
    qed
  qed
qed

section \<open>The approval action as a whole\<close>

lemma find_mark_approved:
  "find (\<lambda>r. et_id r = tid) (mark_approved tid ts notes rows) =
     map_option (\<lambda>r. r\<lparr>et_status := ''approved'', et_approved_at := Some ts, et_notes := Some notes\<rparr>)
       (find (\<lambda>r. et_id r = tid) rows)"
  by (induction rows) (auto simp: mark_approved_def)

lemma select_other_images_cong:
  "carousel_images w' = carousel_images w \<Longrightarrow> et_carousel_id t' = et_carousel_id t
     \<Longrightarrow> et_image_id t' = et_image_id t
     \<Longrightarrow> select_other_images w' t' = select_other_images w t"
  by (simp add: select_other_images_def)

lemma approve_edit_unknown:
  assumes "find (\<lambda>r. et_id r = test_id) (edit_tests w) = None"
  shows "fst (approve_edit env w test_id notes)
           = w\<lparr>edit_tests := mark_approved test_id (now env 0) notes (edit_tests w)\<rparr>"
  using assms by (simp add: approve_edit_def Let_def find_mark_approved)

lemma approve_edit_found:
  assumes "find (\<lambda>r. et_id r = test_id) (edit_tests w) = Some test"
    and "t = test\<lparr>et_status := ''approved'', et_approved_at := Some (now env 0),
                 et_notes := Some notes\<rparr>"
    and "w1 = w\<lparr>edit_tests := mark_approved test_id (now env 0) notes (edit_tests w)\<rparr>"
    and "items = select_other_images w test"
  shows "approve_edit env w test_id notes =
     (if items = [] then
        (w1, Inr (JObj [(''success'', JAtom (ABool True)),
                        (''message'', jstr ''Edit approved! No other images to process.'')], 200))
      else
        (case insert_batch env w1 test_id t items of
           Inl e \<Rightarrow> (w1, Inl e)
         | Inr w2 \<Rightarrow>
             (case run_batch env w2 t items (new_batch_id env) of
                (w3, Inr resp) \<Rightarrow> (w3, Inr resp)
              | (w3, Inl e) \<Rightarrow>
                  (case fail_batch env (new_batch_id env) e w3 of
                     (w4, resp) \<Rightarrow> (w4, Inr resp)))))"
proof -
  have f: "find (\<lambda>r. et_id r = test_id) (edit_tests w1) = Some t"
    using assms(1) by (simp add: assms(2,3) find_mark_approved)
  have s: "select_other_images w1 t = items"
    unfolding assms(4) by (rule select_other_images_cong) (simp_all add: assms(2,3))
  have "approve_edit env w test_id notes =
     (case find (\<lambda>r. et_id r = test_id) (edit_tests w1) of
        None \<Rightarrow> (w1, Inl (IndexError ''list index out of range''))
      | Some test \<Rightarrow>
          (let other_images = select_other_images w1 test in
           if other_images = [] then
             (w1, Inr (JObj [(''success'', JAtom (ABool True)),
                             (''message'', jstr ''Edit approved! No other images to process.'')],
                       200))
           else
             (case insert_batch env w1 test_id test other_images of
                Inl e \<Rightarrow> (w1, Inl e)
              | Inr w2 \<Rightarrow>
                  (case run_batch env w2 test other_images (new_batch_id env) of
                     (w3, Inr resp) \<Rightarrow> (w3, Inr resp)
                   | (w3, Inl e) \<Rightarrow>
                       (case fail_batch env (new_batch_id env) e w3 of
                          (w4, resp) \<Rightarrow> (w4, Inr resp))))))"
    unfolding approve_edit_def Let_def assms(3) ..
  then show ?thesis unfolding f option.case Let_def s .
qed


lemma mark_approved_rows:
  assumes "r \<in> set (mark_approved tid ts notes rows)" and "et_id r = tid"
  shows "et_status r = ''approved'' \<and> et_approved_at r = Some ts"
proof -
  from assms(1) obtain x where x: "x \<in> set rows"
    and r: "r = (if et_id x = tid
               then x\<lparr>et_status := ''approved'', et_approved_at := Some ts, et_notes := Some notes\<rparr>
               else x)"
    unfolding mark_approved_def set_map by (rule imageE)
  show ?thesis
  proof (cases "et_id x = tid")
    case True
    then show ?thesis by (simp add: r)
  next
    case False
    then show ?thesis using assms(2) r by simp
  qed
qed

lemma filter_update_fresh:
  assumes "bid \<notin> set (map b_id rows)" and "b_id b0 = bid" and "b_id (f b0) = bid"
  shows "filter (\<lambda>b. b_id b = bid) (map (\<lambda>b. if b_id b = bid then f b else b) (rows @ [b0]))
           = [f b0]"
proof -
  have "filter (\<lambda>b. b_id b = bid) (map (\<lambda>b. if b_id b = bid then f b else b) rows) = []"
    using assms(1) by (induction rows) auto
  then show ?thesis using assms(2,3) by simp
qed

lemma insert_batch_fresh:
  assumes "new_batch_id env \<notin> set (map b_id (comfyui_batches w))"
  shows "\<exists>w2 b0. insert_batch env w tid t items = Inr w2
     \<and> comfyui_batches w2 = comfyui_batches w @ [b0]
     \<and> b_id b0 = new_batch_id env \<and> b_completed_images b0 = None
     \<and> edit_tests w2 = edit_tests w \<and> carousel_images w2 = carousel_images w
     \<and> posted w2 = posted w"
  using assms by (simp add: insert_batch_def)

lemma approve_edit_edit_tests:
  "edit_tests (fst (approve_edit env w test_id notes))
     = mark_approved test_id (now env 0) notes (edit_tests w)"
proof (cases "find (\<lambda>r. et_id r = test_id) (edit_tests w)")
  case None
  then show ?thesis by (simp add: approve_edit_unknown)
next
  case (Some test)
  define t where "t = test\<lparr>et_status := ''approved'', et_approved_at := Some (now env 0),
                 et_notes := Some notes\<rparr>"
  define w1 where "w1 = w\<lparr>edit_tests := mark_approved test_id (now env 0) notes (edit_tests w)\<rparr>"
  define items where "items = select_other_images w test"
  note ae = approve_edit_found[OF Some t_def w1_def items_def]
  have e1: "edit_tests w1 = mark_approved test_id (now env 0) notes (edit_tests w)"
    by (simp add: w1_def)
  show ?thesis
  proof (cases "items = []")
    case True
    then show ?thesis using ae e1 by simp
  next
    case False
    show ?thesis
    proof (cases "insert_batch env w1 test_id t items")
      case (Inl e)
      then show ?thesis using ae e1 False by simp
    next
      case (Inr w2)
      note i = insert_batch_edit_tests[OF Inr]
      obtain w3 r where rb: "run_batch env w2 t items (new_batch_id env) = (w3, r)"
        by (cases "run_batch env w2 t items (new_batch_id env)")
      from run_batch_cases[OF rb] have e3: "edit_tests w3 = edit_tests w2" by simp
      show ?thesis
      proof (cases r)
        case (Inl e)
        obtain w4 resp where fb: "fail_batch env (new_batch_id env) e w3 = (w4, resp)"
          by (cases "fail_batch env (new_batch_id env) e w3")
        from fail_batch_edit_tests[OF fb] e3 i e1 have "edit_tests w4 =
            mark_approved test_id (now env 0) notes (edit_tests w)" by simp
        moreover have "fst (approve_edit env w test_id notes) = w4"
          unfolding ae using False \<open>insert_batch env w1 test_id t items = Inr w2\<close> rb Inl fb
          by simp
        ultimately show ?thesis by simp
      next
        case (Inr resp)
        have "fst (approve_edit env w test_id notes) = w3"
          unfolding ae using False \<open>insert_batch env w1 test_id t items = Inr w2\<close> rb Inr
          by simp
        then show ?thesis using e3 i e1 by simp
      qed
    qed
  qed
qed


lemma final_row_id [simp]: "b_id (final_row env imgs b) = b_id b"
  by (simp add: final_row_def)

section \<open>The completion poller\<close>

lemma say_slept [simp]: "slept (say w l) = slept w"
  by (simp add: say_def)

lemma sleep_slept [simp]: "slept (sleep w n) = slept w + n"
  by (simp add: sleep_def)

lemma wait_query_slept [simp]: "slept (wait_query w n) = slept w"
  by (simp add: wait_query_def)

lemma say_waited [simp]: "waited (say w l) = waited w"
  by (simp add: say_def)

lemma sleep_waited [simp]: "waited (sleep w n) = waited w"
  by (simp add: sleep_def)

lemma wait_query_waited [simp]: "waited (wait_query w n) = waited w + min n query_timeout"
  by (simp add: wait_query_def)

lemma poll_job_pending:
  assumes "attempt < max_attempts"
    and "check_history (get_history env idx (attempt + 1)) pid = Pending"
  shows "poll_job env idx pid attempt w =
     poll_job env idx pid (attempt + 1)
       (if (attempt + 1) mod 6 = 0
        then say (wait_query (sleep w 5) (history_seconds env idx (attempt + 1))) (LogAttempt (attempt + 1) max_attempts (idx + 1))
        else wait_query (sleep w 5) (history_seconds env idx (attempt + 1)))"
  by (subst poll_job.simps) (simp only: assms Let_def if_True poll_result.case)

lemma poll_job_failed:
  assumes "attempt < max_attempts"
    and "check_history (get_history env idx (attempt + 1)) pid = Failed e"
  shows "poll_job env idx pid attempt w =
     poll_job env idx pid (attempt + 1) (say (wait_query (sleep w 5) (history_seconds env idx (attempt + 1))) (LogPollError e))"
  by (subst poll_job.simps) (simp only: assms Let_def if_True poll_result.case)

lemma poll_job_done:
  assumes "attempt < max_attempts"
    and "check_history (get_history env idx (attempt + 1)) pid = Done f"
  shows "poll_job env idx pid attempt w
           = (wait_query (sleep w 5) (history_seconds env idx (attempt + 1)), f, attempt + 1)"
  by (subst poll_job.simps) (simp only: assms Let_def if_True poll_result.case)

lemma poll_job_stop:
  "\<not> attempt < max_attempts \<Longrightarrow> poll_job env idx pid attempt w = (w, None, attempt)"
  by (subst poll_job.simps) simp





section \<open>Instantiation on the heap and on documents\<close>

lemma rep_json_dumps:
  assumes "rep h lo hi v j" and "hi \<le> length h"
  shows "json_dumps h v = Inr j"
  using rep_dumps(1)[OF assms(1), of "length h"] assms(2) by (simp add: json_dumps_def)

lemma json_dumps_frame:
  assumes "json_dumps h v = Inr j" and "length h \<le> length h2"
    and "\<And>a. a < length h \<Longrightarrow> h2 ! a = h ! a"
  shows "json_dumps h2 v = Inr j"
  using dumps_frame[of "length h" h v j "length h2" h2] assms by (simp add: json_dumps_def)

lemma rep_hi_le:
  "rep h lo hi v (JObj kvs) \<Longrightarrow> hi \<le> length h"
  by (auto elim: rep_objE)

lemma deep_copy_rep:
  assumes "deep_copy h t = Inr (h0, g)"
  shows "\<exists>j. json_dumps h t = Inr j \<and> (\<exists>ext. h0 = h @ ext) \<and> rep h0 (length h) (length h0) g j"
proof -
  from assms obtain j where j: "json_dumps h t = Inr j" and l: "loads h j = (h0, g)"
    by (auto simp: deep_copy_def split: sum.splits)
  from loads_rep(1)[OF l] j show ?thesis by blast
qed

lemma deep_copy_ok:
  assumes "json_dumps h t = Inr j"
  shows "\<exists>h0 g. deep_copy h t = Inr (h0, g)"
  using assms by (cases "loads h j") (simp add: deep_copy_def)

lemma deep_copy_err:
  assumes "json_dumps h t = Inl e"
  shows "deep_copy h t = Inl e"
  using assms by (simp add: deep_copy_def)

text \<open>The heap program of lines 317-324 computes what \<open>jinstantiate\<close> says, on fresh objects.\<close>

lemma instantiate_refines:
  assumes d: "json_dumps h t = Inr j"
  shows "(\<forall>e. jinstantiate j mf pf i seed bid = Inl e \<longrightarrow>
            instantiate h t mf pf i seed bid = Inl e)
       \<and> (\<forall>j'. jinstantiate j mf pf i seed bid = Inr j' \<longrightarrow>
            (\<exists>h' g. instantiate h t mf pf i seed bid = Inr (h', g)
               \<and> length h \<le> length h' \<and> (\<forall>a < length h. h' ! a = h ! a)
               \<and> rep h' (length h) (length h') g j'))"
proof -
  from deep_copy_ok[OF d] obtain h0 g where dc: "deep_copy h t = Inr (h0, g)" by blast
  from deep_copy_rep[OF dc] d obtain ext where ext: "h0 = h @ ext"
    and r0: "rep h0 (length h) (length h0) g j" by auto
  let ?lo = "length h" and ?hi = "length h0"
  let ?x1 = "AStr ''qwen_image_edit_2509_fp8_e4m3fn.safetensors''"
  let ?x2 = "AStr mf"
  let ?x3 = "AStr (pf @ ''/'' @ pose_name i @ ''.jpg'')"
  let ?x4 = "AInt seed"
  let ?x5 = "AStr (bid @ ''_'' @ pose_name i)"
  have fr0: "\<forall>a < ?lo. h0 ! a = h ! a" by (simp add: ext nth_append)
  show ?thesis
  proof (cases "jbind j ''67'' ''unet_name'' ?x1")
    case (Inl e)
    with bind_slot_err[OF r0 Inl] dc show ?thesis
      by (simp add: jinstantiate_def instantiate_def)
  next
    case b1: (Inr j1)
    from bind_slot_rep[OF r0 b1] obtain h1 where s1: "bind_slot h0 g ''67'' ''unet_name'' ?x1 = Inr h1"
      and r1: "rep h1 ?lo ?hi g j1" and l1: "length h1 = length h0"
      and f1: "\<forall>a. a < ?lo \<or> ?hi \<le> a \<longrightarrow> h1 ! a = h0 ! a" by blast
    show ?thesis
    proof (cases "jbind j1 ''78'' ''image'' ?x2")
      case (Inl e)
      with bind_slot_err[OF r1 Inl] dc s1 b1 show ?thesis
        by (simp add: jinstantiate_def instantiate_def)
    next
      case b2: (Inr j2)
      from bind_slot_rep[OF r1 b2] obtain h2 where s2: "bind_slot h1 g ''78'' ''image'' ?x2 = Inr h2"
        and r2: "rep h2 ?lo ?hi g j2" and l2: "length h2 = length h1"
        and f2: "\<forall>a. a < ?lo \<or> ?hi \<le> a \<longrightarrow> h2 ! a = h1 ! a" by blast
      show ?thesis
      proof (cases "jbind j2 ''179'' ''image'' ?x3")
        case (Inl e)
        with bind_slot_err[OF r2 Inl] dc s1 b1 s2 b2 show ?thesis
          by (simp add: jinstantiate_def instantiate_def)
      next
        case b3: (Inr j3)
        from bind_slot_rep[OF r2 b3] obtain h3 where s3: "bind_slot h2 g ''179'' ''image'' ?x3 = Inr h3"
          and r3: "rep h3 ?lo ?hi g j3" and l3: "length h3 = length h2"
          and f3: "\<forall>a. a < ?lo \<or> ?hi \<le> a \<longrightarrow> h3 ! a = h2 ! a" by blast
        show ?thesis
        proof (cases "jbind j3 ''74'' ''seed'' ?x4")
          case (Inl e)
          with bind_slot_err[OF r3 Inl] dc s1 b1 s2 b2 s3 b3 show ?thesis
            by (simp add: jinstantiate_def instantiate_def)
        next
          case b4: (Inr j4)
          from bind_slot_rep[OF r3 b4] obtain h4 where s4: "bind_slot h3 g ''74'' ''seed'' ?x4 = Inr h4"
            and r4: "rep h4 ?lo ?hi g j4" and l4: "length h4 = length h3"
            and f4: "\<forall>a. a < ?lo \<or> ?hi \<le> a \<longrightarrow> h4 ! a = h3 ! a" by blast
          show ?thesis
          proof (cases "jbind j4 ''94'' ''filename_prefix'' ?x5")
            case (Inl e)
            with bind_slot_err[OF r4 Inl] dc s1 b1 s2 b2 s3 b3 s4 b4 show ?thesis
              by (simp add: jinstantiate_def instantiate_def)
          next
            case b5: (Inr j5)
            from bind_slot_rep[OF r4 b5] obtain h5
              where s5: "bind_slot h4 g ''94'' ''filename_prefix'' ?x5 = Inr h5"
              and r5: "rep h5 ?lo ?hi g j5" and l5: "length h5 = length h4"
              and f5: "\<forall>a. a < ?lo \<or> ?hi \<le> a \<longrightarrow> h5 ! a = h4 ! a" by blast
            have i: "instantiate h t mf pf i seed bid = Inr (h5, g)"
              using dc s1 s2 s3 s4 s5 by (simp add: instantiate_def)
            have ji: "jinstantiate j mf pf i seed bid = Inr j5"
              using b1 b2 b3 b4 b5 by (simp add: jinstantiate_def)
            have len: "length h5 = length h0" using l1 l2 l3 l4 l5 by simp
            have "\<forall>a < ?lo. h5 ! a = h ! a" using f1 f2 f3 f4 f5 fr0 by simp
            moreover have "?lo \<le> length h5" using len ext by simp
            moreover have "rep h5 ?lo (length h5) g j5" using r5 len by simp
            ultimately show ?thesis using i ji by simp
          qed
        qed
      qed
    qed
  qed
qed

lemma instantiate_dumps_err:
  assumes "json_dumps h t = Inl e"
  shows "instantiate h t mf pf i seed bid = Inl e"
  using deep_copy_err[OF assms] by (simp add: instantiate_def)


lemma jbind_shape:
  assumes "jbind j n s x = Inr j'"
  shows "\<exists>kvs nkvs ikvs. j = JObj kvs \<and> map_of kvs n = Some (JObj nkvs)
           \<and> map_of nkvs ''inputs'' = Some (JObj ikvs)
           \<and> j' = JObj (AList.update n
                     (JObj (AList.update ''inputs'' (JObj (AList.update s (JAtom x) ikvs)) nkvs)) kvs)"
proof -
  from assms obtain nd where g1: "jget j n = Inr nd"
    by (auto simp: jbind_def split: sum.splits)
  then obtain kvs where j: "j = JObj kvs" and m1: "map_of kvs n = Some nd"
    by (cases j) (auto split: option.splits)
  from assms g1 obtain inp where g2: "jget nd ''inputs'' = Inr inp"
    by (auto simp: jbind_def split: sum.splits)
  then obtain nkvs where nd: "nd = JObj nkvs" and m2: "map_of nkvs ''inputs'' = Some inp"
    by (cases nd) (auto split: option.splits)
  from assms g1 g2 obtain inp' where s3: "jset inp s (JAtom x) = Inr inp'"
    by (auto simp: jbind_def split: sum.splits)
  then obtain ikvs where inp: "inp = JObj ikvs" by (cases inp) auto
  have "j' = JObj (AList.update n
                     (JObj (AList.update ''inputs'' (JObj (AList.update s (JAtom x) ikvs)) nkvs)) kvs)"
    using assms m1 m2 by (simp add: jbind_def j nd inp)
  then show ?thesis using j m1 m2 nd inp by blast
qed

lemma jbind_slot_same:
  assumes "jbind j n s x = Inr j'"
  shows "jslot j' n s = Inr (JAtom x)"
proof -
  from jbind_shape[OF assms] obtain kvs nkvs ikvs where
    "j' = JObj (AList.update n
                     (JObj (AList.update ''inputs'' (JObj (AList.update s (JAtom x) ikvs)) nkvs)) kvs)"
    by blast
  then show ?thesis by (simp add: jslot_def update_conv')
qed

lemma jbind_slot_other:
  assumes "jbind j n s x = Inr j'" and "n' \<noteq> n"
  shows "jslot j' n' s' = jslot j n' s'"
proof -
  from jbind_shape[OF assms(1)] obtain kvs nkvs ikvs where "j = JObj kvs"
    "j' = JObj (AList.update n
                     (JObj (AList.update ''inputs'' (JObj (AList.update s (JAtom x) ikvs)) nkvs)) kvs)"
    by blast
  then show ?thesis using assms(2) by (simp add: jslot_def update_conv')
qed

lemma jinstantiate_slots:
  assumes "jinstantiate j mf pf i seed bid = Inr j'"
  shows "jslot j' ''67'' ''unet_name''
           = Inr (JAtom (AStr ''qwen_image_edit_2509_fp8_e4m3fn.safetensors''))"
    and "jslot j' ''78'' ''image'' = Inr (JAtom (AStr mf))"
    and "jslot j' ''179'' ''image'' = Inr (JAtom (AStr (pf @ ''/'' @ pose_name i @ ''.jpg'')))"
    and "jslot j' ''74'' ''seed'' = Inr (JAtom (AInt seed))"
    and "jslot j' ''94'' ''filename_prefix'' = Inr (JAtom (AStr (bid @ ''_'' @ pose_name i)))"
proof -
  from assms obtain j1 j2 j3 j4 where
    b1: "jbind j ''67'' ''unet_name'' (AStr ''qwen_image_edit_2509_fp8_e4m3fn.safetensors'') = Inr j1"
    and b2: "jbind j1 ''78'' ''image'' (AStr mf) = Inr j2"
    and b3: "jbind j2 ''179'' ''image'' (AStr (pf @ ''/'' @ pose_name i @ ''.jpg'')) = Inr j3"
    and b4: "jbind j3 ''74'' ''seed'' (AInt seed) = Inr j4"
    and b5: "jbind j4 ''94'' ''filename_prefix'' (AStr (bid @ ''_'' @ pose_name i)) = Inr j'"
    by (auto simp: jinstantiate_def split: sum.splits)
  show "jslot j' ''94'' ''filename_prefix'' = Inr (JAtom (AStr (bid @ ''_'' @ pose_name i)))"
    by (rule jbind_slot_same[OF b5])
  show "jslot j' ''74'' ''seed'' = Inr (JAtom (AInt seed))"
    using jbind_slot_other[OF b5, of "''74''"] jbind_slot_same[OF b4] by simp
  show "jslot j' ''179'' ''image'' = Inr (JAtom (AStr (pf @ ''/'' @ pose_name i @ ''.jpg'')))"
    using jbind_slot_other[OF b5, of "''179''"] jbind_slot_other[OF b4, of "''179''"]
      jbind_slot_same[OF b3] by simp
  show "jslot j' ''78'' ''image'' = Inr (JAtom (AStr mf))"
    using jbind_slot_other[OF b5, of "''78''"] jbind_slot_other[OF b4, of "''78''"]
      jbind_slot_other[OF b3, of "''78''"] jbind_slot_same[OF b2] by simp
  show "jslot j' ''67'' ''unet_name''
           = Inr (JAtom (AStr ''qwen_image_edit_2509_fp8_e4m3fn.safetensors''))"
    using jbind_slot_other[OF b5, of "''67''"] jbind_slot_other[OF b4, of "''67''"]
      jbind_slot_other[OF b3, of "''67''"] jbind_slot_other[OF b2, of "''67''"]
      jbind_slot_same[OF b1] by simp
qed

lemma rep_slot_value:
  assumes r: "rep h lo hi g j" and s: "jslot j n sl = Inr (JAtom a)"
  shows "slot_value h g n sl = Inr (VAtom a)"
proof -
  from s obtain nd inp where g1: "jget j n = Inr nd" and g2: "jget nd ''inputs'' = Inr inp"
    and g3: "jget inp sl = Inr (JAtom a)"
    by (auto simp: jslot_def split: sum.splits)
  from rep_getitem[OF r g1] obtain v1 a1 b1 where h1: "getitem h g n = Inr v1"
    and r1: "rep h a1 b1 v1 nd" by blast
  from rep_getitem[OF r1 g2] obtain v2 a2 b2 where h2: "getitem h v1 ''inputs'' = Inr v2"
    and r2: "rep h a2 b2 v2 inp" by blast
  from rep_getitem[OF r2 g3] obtain v3 a3 b3 where h3: "getitem h v2 sl = Inr v3"
    and r3: "rep h a3 b3 v3 (JAtom a)" by blast
  from r3 have "v3 = VAtom a" by (auto elim: rep_atomE)
  then show ?thesis using h1 h2 h3 by (simp add: slot_value_def)
qed

lemma rep_bound_values:
  assumes r: "rep h lo hi g j'" and ji: "jinstantiate j mf pf i seed bid = Inr j'"
  shows "bound_values h g =
           [Inr (VAtom (AStr ''qwen_image_edit_2509_fp8_e4m3fn.safetensors'')),
            Inr (VAtom (AStr mf)),
            Inr (VAtom (AStr (pf @ ''/'' @ pose_name i @ ''.jpg''))),
            Inr (VAtom (AInt seed)),
            Inr (VAtom (AStr (bid @ ''_'' @ pose_name i)))]"
  unfolding bound_values_def
  using rep_slot_value[OF r jinstantiate_slots(1)[OF ji]]
    rep_slot_value[OF r jinstantiate_slots(2)[OF ji]]
    rep_slot_value[OF r jinstantiate_slots(3)[OF ji]]
    rep_slot_value[OF r jinstantiate_slots(4)[OF ji]]
    rep_slot_value[OF r jinstantiate_slots(5)[OF ji]]
  by simp

text \<open>What a successful instantiation gives.\<close>

lemma instantiate_result:
  assumes i: "instantiate h t mf pf i seed bid = Inr (h', g)"
  shows "\<exists>j j'. json_dumps h t = Inr j \<and> jinstantiate j mf pf i seed bid = Inr j'
           \<and> length h \<le> length h' \<and> (\<forall>a < length h. h' ! a = h ! a)
           \<and> rep h' (length h) (length h') g j'"
proof (cases "json_dumps h t")
  case (Inl e)
  from instantiate_dumps_err[OF Inl] i show ?thesis by simp
next
  case (Inr j)
  note rf = instantiate_refines[OF Inr, of mf pf i seed bid]
  show ?thesis
  proof (cases "jinstantiate j mf pf i seed bid")
    case (Inl e)
    with rf i show ?thesis by simp
  next
    case ji: (Inr j')
    with rf obtain h2 g2 where "instantiate h t mf pf i seed bid = Inr (h2, g2)"
      "length h \<le> length h2" "\<forall>a < length h. h2 ! a = h ! a"
      "rep h2 (length h) (length h2) g2 j'" by blast
    with i Inr ji show ?thesis by auto
  qed
qed

lemma loads_json_dumps:
  assumes "loads h j = (h', v)"
  shows "json_dumps h' v = Inr j"
  using loads_rep(1)[OF assms] rep_json_dumps by blast

lemma demo_template_instantiates:
  "\<exists>j'. jinstantiate demo_template mf pf i seed bid = Inr j'"
  by (simp add: jinstantiate_def jbind_def demo_template_def jstr_def)

section \<open>The submission loop on documents\<close>

lemma payload_dumps:
  assumes r: "rep h lo (length h) g j"
  shows "json_dumps (h @ [ODict [(''prompt'', g)]]) (VRef (length h)) = Inr (JObj [(''prompt'', j)])"
proof -
  let ?h2 = "h @ [ODict [(''prompt'', g)]]"
  have "rep ?h2 lo (length h) g j" using r by (rule rep_append)
  moreover have "rep_fields ?h2 (length h) (length h) [] []" by (simp add: repf_nil)
  ultimately have "rep_fields ?h2 lo (length h) [(''prompt'', g)] [(''prompt'', j)]"
    by (rule repf_cons)
  then have "rep ?h2 lo (Suc (length h)) (VRef (length h)) (JObj [(''prompt'', j)])"
    by (rule rep_obj) simp_all
  then show ?thesis by (rule rep_json_dumps) simp
qed

lemma submit_all_refines:
  "json_dumps h tmpl = Inr doc \<Longrightarrow>
   submit_all env bid mf pf tmpl n i items h pids w
     = jsubmit_all env bid mf pf doc n i items pids w"
proof (induction items arbitrary: i h pids w)
  case Nil
  then show ?case by simp
next
  case (Cons img rest)
  note rf = instantiate_refines[OF Cons.prems, of mf pf i "randint env i" bid]
  show ?case
  proof (cases "jinstantiate doc mf pf i (randint env i) bid")
    case (Inl e)
    with rf have "instantiate h tmpl mf pf i (randint env i) bid = Inl e" by simp
    then show ?thesis using Inl by simp
  next
    case (Inr j')
    with rf obtain h1 g where i1: "instantiate h tmpl mf pf i (randint env i) bid = Inr (h1, g)"
      and l: "length h \<le> length h1" and f: "\<forall>a < length h. h1 ! a = h ! a"
      and r: "rep h1 (length h) (length h1) g j'" by blast
    let ?h2 = "h1 @ [ODict [(''prompt'', g)]]"
    have p: "json_dumps ?h2 (VRef (length h1)) = Inr (JObj [(''prompt'', j')])"
      by (rule payload_dumps[OF r])
    have d2: "json_dumps ?h2 tmpl = Inr doc"
      using json_dumps_frame[OF Cons.prems, of ?h2] l f by (simp add: nth_append)
    note ih = Cons.IH[OF d2]
    show ?thesis
      by (cases "post_prompt env i") (simp_all add: i1 p Inr Let_def ih)
  qed
qed

lemma trigger_workflows_doc:
  assumes "load_template env = Inr doc"
  shows "trigger_workflows env bid mf pf items w =
     (case jsubmit_all env bid mf pf doc (length items) 0 items []
             (say w (LogTriggering (length items))) of
        (w1, Inl e) \<Rightarrow> (w1, Inl e)
      | (w1, Inr prompt_ids) \<Rightarrow> (say w1 (LogAllTriggered prompt_ids), Inr prompt_ids))"
proof -
  obtain h t where l: "loads [] doc = (h, t)" by (cases "loads [] doc")
  have "json_dumps h t = Inr doc" by (rule loads_json_dumps[OF l])
  from submit_all_refines[OF this] show ?thesis
    by (simp add: trigger_workflows_def assms l)
qed

lemma upt_shift: "[i..<Suc (i + n)] = i # [Suc i..<Suc (i + n)]"
  by (simp add: upt_conv_Cons del: upt_Suc)

lemma jsubmit_all_posted:
  "jsubmit_all env bid mf pf doc n i items pids w = (w', r) \<Longrightarrow>
   \<exists>new. posted w' = posted w @ new \<and> length new \<le> length items
     \<and> (\<forall>j < length new. \<exists>g. new ! j = JObj [(''prompt'', g)]
            \<and> jinstantiate doc mf pf (i + j) (randint env (i + j)) bid = Inr g)
     \<and> (\<forall>pids'. r = Inr pids' \<longrightarrow>
           length new = length items
           \<and> pids' = pids @ List.map_filter (\<lambda>k. job_id (post_prompt env k)) [i..<i + length items]
           \<and> stdout w' = stdout w @ List.map_filter
                 (\<lambda>k. map_option (LogPoseTriggered (k + 1) n) (job_id (post_prompt env k)))
                 [i..<i + length items])"
proof (induction items arbitrary: i pids w)
  case Nil
  then show ?case by (auto simp: List.map_filter_simps)
next
  case (Cons img rest)
  show ?case
  proof (cases "jinstantiate doc mf pf i (randint env i) bid")
    case (Inl e)
    then have "w' = w" "r = Inl e" using Cons.prems by simp_all
    then show ?thesis by simp
  next
    case (Inr g)
    let ?w1 = "w\<lparr>posted := posted w @ [JObj [(''prompt'', g)]]\<rparr>"
    show ?thesis
    proof (cases "post_prompt env i")
      case (PostRaises e)
      then have "w' = ?w1" "r = Inl e" using Cons.prems Inr by (simp_all add: Let_def)
      then show ?thesis using Inr
        by (intro exI[of _ "[JObj [(''prompt'', g)]]"]) simp
    next
      case PostNoId
      then have "jsubmit_all env bid mf pf doc n (i + 1) rest pids (sleep ?w1 1) = (w', r)"
        using Cons.prems Inr by (simp add: Let_def)
      from Cons.IH[OF this] obtain new where
        p: "posted w' = posted (sleep ?w1 1) @ new" and l: "length new \<le> length rest"
        and g: "\<forall>j < length new. \<exists>g. new ! j = JObj [(''prompt'', g)]
            \<and> jinstantiate doc mf pf (i + 1 + j) (randint env (i + 1 + j)) bid = Inr g"
        and f: "\<forall>pids'. r = Inr pids' \<longrightarrow>
           length new = length rest
           \<and> pids' = pids @ List.map_filter (\<lambda>k. job_id (post_prompt env k)) [i + 1..<i + 1 + length rest]
           \<and> stdout w' = stdout (sleep ?w1 1) @ List.map_filter
                 (\<lambda>k. map_option (LogPoseTriggered (k + 1) n) (job_id (post_prompt env k)))
                 [i + 1..<i + 1 + length rest]"
        by blast
      let ?new = "JObj [(''prompt'', g)] # new"
      have "posted w' = posted w @ ?new" using p by (simp add: sleep_def)
      moreover have "length ?new \<le> length (img # rest)" using l by simp
      moreover have "\<forall>j < length ?new. \<exists>g. ?new ! j = JObj [(''prompt'', g)]
            \<and> jinstantiate doc mf pf (i + j) (randint env (i + j)) bid = Inr g"
      proof (intro allI impI)
        fix j assume "j < length ?new"
        then show "\<exists>g. ?new ! j = JObj [(''prompt'', g)]
            \<and> jinstantiate doc mf pf (i + j) (randint env (i + j)) bid = Inr g"
          using g Inr by (cases j) auto
      qed
      moreover have "\<forall>pids'. r = Inr pids' \<longrightarrow>
           length ?new = length (img # rest)
           \<and> pids' = pids @ List.map_filter (\<lambda>k. job_id (post_prompt env k))
                 [i..<i + length (img # rest)]
           \<and> stdout w' = stdout w @ List.map_filter
                 (\<lambda>k. map_option (LogPoseTriggered (k + 1) n) (job_id (post_prompt env k)))
                 [i..<i + length (img # rest)]"
        using f PostNoId by (simp add: upt_shift List.map_filter_simps sleep_def del: upt_Suc)
      ultimately show ?thesis by blast
    next
      case (PostId p)
      let ?w2 = "sleep (say ?w1 (LogPoseTriggered (i + 1) n p)) 1"
      have "jsubmit_all env bid mf pf doc n (i + 1) rest (pids @ [p]) ?w2 = (w', r)"
        using Cons.prems Inr PostId by (simp add: Let_def)
      from Cons.IH[OF this] obtain new where
        p: "posted w' = posted ?w2 @ new" and l: "length new \<le> length rest"
        and g: "\<forall>j < length new. \<exists>g. new ! j = JObj [(''prompt'', g)]
            \<and> jinstantiate doc mf pf (i + 1 + j) (randint env (i + 1 + j)) bid = Inr g"
        and f: "\<forall>pids'. r = Inr pids' \<longrightarrow>
           length new = length rest
           \<and> pids' = (pids @ [p]) @ List.map_filter (\<lambda>k. job_id (post_prompt env k)) [i + 1..<i + 1 + length rest]
           \<and> stdout w' = stdout ?w2 @ List.map_filter
                 (\<lambda>k. map_option (LogPoseTriggered (k + 1) n) (job_id (post_prompt env k)))
                 [i + 1..<i + 1 + length rest]"
        by blast
      let ?new = "JObj [(''prompt'', g)] # new"
      have "posted w' = posted w @ ?new" using p by (simp add: sleep_def say_def)
      moreover have "length ?new \<le> length (img # rest)" using l by simp
      moreover have "\<forall>j < length ?new. \<exists>g. ?new ! j = JObj [(''prompt'', g)]
            \<and> jinstantiate doc mf pf (i + j) (randint env (i + j)) bid = Inr g"
      proof (intro allI impI)
        fix j assume "j < length ?new"
        then show "\<exists>g. ?new ! j = JObj [(''prompt'', g)]
            \<and> jinstantiate doc mf pf (i + j) (randint env (i + j)) bid = Inr g"
          using g Inr by (cases j) auto
      qed
      moreover have "\<forall>pids'. r = Inr pids' \<longrightarrow>
           length ?new = length (img # rest)
           \<and> pids' = pids @ List.map_filter (\<lambda>k. job_id (post_prompt env k))
                 [i..<i + length (img # rest)]
           \<and> stdout w' = stdout w @ List.map_filter
                 (\<lambda>k. map_option (LogPoseTriggered (k + 1) n) (job_id (post_prompt env k)))
                 [i..<i + length (img # rest)]"
        using f PostId by (simp add: upt_shift List.map_filter_simps sleep_def say_def del: upt_Suc)
      ultimately show ?thesis by blast
    qed
  qed
qed

lemma jsubmit_all_raises:
  "jsubmit_all env bid mf pf doc n i items pids w = (w', r) \<Longrightarrow> i \<le> k \<Longrightarrow>
   k < i + length items \<Longrightarrow> post_prompt env k = PostRaises e \<Longrightarrow>
   (\<exists>e'. r = Inl e') \<and> length (posted w') \<le> length (posted w) + (k - i) + 1"
proof (induction items arbitrary: i pids w)
  case Nil
  then show ?case by simp
next
  case (Cons img rest)
  show ?case
  proof (cases "jinstantiate doc mf pf i (randint env i) bid")
    case (Inl e0)
    then have "w' = w" "r = Inl e0" using Cons.prems(1) by simp_all
    then show ?thesis by simp
  next
    case (Inr g)
    let ?w1 = "w\<lparr>posted := posted w @ [JObj [(''prompt'', g)]]\<rparr>"
    show ?thesis
    proof (cases "post_prompt env i")
      case (PostRaises e0)
      then have "w' = ?w1" "r = Inl e0" using Cons.prems(1) Inr by (simp_all add: Let_def)
      then show ?thesis by simp
    next
      case PostNoId
      then have ne: "i \<noteq> k" using Cons.prems(4) by auto
      have "jsubmit_all env bid mf pf doc n (i + 1) rest pids (sleep ?w1 1) = (w', r)"
        using Cons.prems(1) Inr PostNoId by (simp add: Let_def)
      from Cons.IH[OF this _ _ Cons.prems(4)] ne Cons.prems(2,3)
      have "(\<exists>e'. r = Inl e')
          \<and> length (posted w') \<le> length (posted (sleep ?w1 1)) + (k - (i + 1)) + 1"
        by simp
      moreover have "length (posted (sleep ?w1 1)) = length (posted w) + 1"
        by (simp add: sleep_def)
      moreover have "i + 1 \<le> k" using ne Cons.prems(2) by simp
      ultimately show ?thesis by (auto; arith)
    next
      case (PostId p)
      then have ne: "i \<noteq> k" using Cons.prems(4) by auto
      have "jsubmit_all env bid mf pf doc n (i + 1) rest (pids @ [p])
          (sleep (say ?w1 (LogPoseTriggered (i + 1) n p)) 1) = (w', r)"
        using Cons.prems(1) Inr PostId by (simp add: Let_def)
      from Cons.IH[OF this _ _ Cons.prems(4)] ne Cons.prems(2,3)
      have "(\<exists>e'. r = Inl e')
          \<and> length (posted w') \<le> length (posted (sleep (say ?w1 (LogPoseTriggered (i + 1) n p)) 1))
                + (k - (i + 1)) + 1"
        by simp
      moreover have "length (posted (sleep (say ?w1 (LogPoseTriggered (i + 1) n p)) 1))
          = length (posted w) + 1"
        by (simp add: sleep_def say_def)
      moreover have "i + 1 \<le> k" using ne Cons.prems(2) by simp
      ultimately show ?thesis by (auto; arith)
    qed
  qed
qed

lemma jbind_fails:
  assumes "jget j k = Inl e1 \<or> (\<exists>nd e2. jget j k = Inr nd \<and> jget nd ''inputs'' = Inl e2)"
  shows "\<exists>e. jbind j k s x = Inl e"
  using assms by (auto simp: jbind_def)

lemma jbind_preserves:
  assumes "jbind j n s x = Inr j'" and "k \<noteq> n"
  shows "jget j' k = jget j k"
proof -
  from jbind_shape[OF assms(1)] obtain kvs nkvs ikvs where "j = JObj kvs"
    "j' = JObj (AList.update n
                     (JObj (AList.update ''inputs'' (JObj (AList.update s (JAtom x) ikvs)) nkvs)) kvs)"
    by blast
  then show ?thesis using assms(2) by (simp add: update_conv')
qed

lemma jinstantiate_fails:
  assumes k: "k \<in> set [''67'', ''78'', ''179'', ''74'', ''94'']"
    and bad: "jget doc k = Inl e1 \<or> (\<exists>nd e2. jget doc k = Inr nd \<and> jget nd ''inputs'' = Inl e2)"
  shows "\<exists>e. jinstantiate doc mf pf i seed bid = Inl e"
proof -
  let ?x1 = "AStr ''qwen_image_edit_2509_fp8_e4m3fn.safetensors''"
  let ?x2 = "AStr mf"
  let ?x3 = "AStr (pf @ ''/'' @ pose_name i @ ''.jpg'')"
  let ?x4 = "AInt seed"
  let ?x5 = "AStr (bid @ ''_'' @ pose_name i)"
  let ?bad = "\<lambda>j. jget j k = Inl e1 \<or> (\<exists>nd e2. jget j k = Inr nd \<and> jget nd ''inputs'' = Inl e2)"
  have keep: "?bad j'" if "jbind j n s x = Inr j'" "k \<noteq> n" "?bad j" for j j' n s x
    using jbind_preserves[OF that(1,2)] that(3) by simp
  have stop: "k \<noteq> n" if "jbind j n s x = Inr j'" "?bad j" for j j' n s x
    using jbind_fails[of j k e1 s x] that by auto
  show ?thesis
  proof (cases "jbind doc ''67'' ''unet_name'' ?x1")
    case (Inl e)
    then show ?thesis by (simp add: jinstantiate_def)
  next
    case b1: (Inr j1)
    note n1 = stop[OF b1 bad]
    note bad1 = keep[OF b1 n1 bad]
    show ?thesis
    proof (cases "jbind j1 ''78'' ''image'' ?x2")
      case (Inl e)
      then show ?thesis using b1 by (simp add: jinstantiate_def)
    next
      case b2: (Inr j2)
      note n2 = stop[OF b2 bad1]
      note bad2 = keep[OF b2 n2 bad1]
      show ?thesis
      proof (cases "jbind j2 ''179'' ''image'' ?x3")
        case (Inl e)
        then show ?thesis using b1 b2 by (simp add: jinstantiate_def)
      next
        case b3: (Inr j3)
        note n3 = stop[OF b3 bad2]
        note bad3 = keep[OF b3 n3 bad2]
        show ?thesis
        proof (cases "jbind j3 ''74'' ''seed'' ?x4")
          case (Inl e)
          then show ?thesis using b1 b2 b3 by (simp add: jinstantiate_def)
        next
          case b4: (Inr j4)
          note n4 = stop[OF b4 bad3]
          note bad4 = keep[OF b4 n4 bad3]
          show ?thesis
          proof (cases "jbind j4 ''94'' ''filename_prefix'' ?x5")
            case (Inl e)
            then show ?thesis using b1 b2 b3 b4 by (simp add: jinstantiate_def)
          next
            case b5: (Inr j5)
            note n5 = stop[OF b5 bad4]
            from k n1 n2 n3 n4 n5 have False by simp
            then show ?thesis ..
          qed
        qed
      qed
    qed
  qed
qed

lemma trigger_workflows_unbindable:
  assumes "load_template env = Inr doc" and "items \<noteq> []"
    and "k \<in> set [''67'', ''78'', ''179'', ''74'', ''94'']"
    and "jget doc k = Inl e1 \<or> (\<exists>nd e2. jget doc k = Inr nd \<and> jget nd ''inputs'' = Inl e2)"
  shows "\<exists>e. snd (trigger_workflows env bid mf pf items w) = Inl e
           \<and> posted (fst (trigger_workflows env bid mf pf items w)) = posted w"
proof -
  from assms(2) obtain img rest where items: "items = img # rest" by (cases items) auto
  from jinstantiate_fails[OF assms(3,4)] obtain e
    where "jinstantiate doc mf pf 0 (randint env 0) bid = Inl e" by blast
  then show ?thesis
    by (simp add: trigger_workflows_doc[OF assms(1)] items say_def)
qed

lemma trigger_workflows_raises:
  assumes "k < length items" and "post_prompt env k = PostRaises e"
  shows "\<exists>e'. snd (trigger_workflows env bid mf pf items w) = Inl e'
           \<and> length (posted (fst (trigger_workflows env bid mf pf items w)))
                \<le> length (posted w) + k + 1"
proof (cases "load_template env")
  case (Inl e0)
  then show ?thesis by (simp add: trigger_workflows_def)
next
  case (Inr doc)
  obtain w1 r1 where s: "jsubmit_all env bid mf pf doc (length items) 0 items []
             (say w (LogTriggering (length items))) = (w1, r1)"
    by (cases "jsubmit_all env bid mf pf doc (length items) 0 items []
             (say w (LogTriggering (length items)))")
  from jsubmit_all_raises[OF s _ _ assms(2)] assms(1)
  obtain e' where "r1 = Inl e'" "length (posted w1) \<le> length (posted w) + k + 1"
    by (auto simp: say_def)
  then show ?thesis by (simp add: trigger_workflows_doc[OF Inr] s)
qed

lemma say_posted [simp]: "posted (say w l) = posted w"
  by (simp add: say_def)

lemma upload_model_posted:
  "upload_model env w url = (w', r) \<Longrightarrow> posted w' = posted w"
  by (auto simp: upload_model_def Let_def say_def split: sum.splits option.splits)

lemma make_pose_folder_posted:
  "make_pose_folder env w = (w', r) \<Longrightarrow> posted w' = posted w"
  by (auto simp: make_pose_folder_def Let_def split: option.splits)

lemma upload_poses_posted:
  "upload_poses env pf idx items w = (w', r) \<Longrightarrow> posted w' = posted w"
proof (induction items arbitrary: idx w)
  case Nil
  then show ?case by simp
next
  case (Cons img rest)
  show ?case
  proof (cases "get_pose env idx (img_url img)")
    case (Inl e)
    then show ?thesis using Cons.prems by simp
  next
    case (Inr content)
    show ?thesis
    proof (cases "scp_pose env idx (input_dir @ pf @ ''/'' @ pose_name idx @ ''.jpg'')")
      case None
      then have "upload_poses env pf (idx + 1) rest
          (w\<lparr>render_input := render_input w
                @ [(input_dir @ pf @ ''/'' @ pose_name idx @ ''.jpg'', content)]\<rparr>) = (w', r)"
        using Cons.prems Inr by (simp add: Let_def)
      from Cons.IH[OF this] show ?thesis by simp
    next
      case (Some e)
      then show ?thesis using Cons.prems Inr by (simp add: Let_def)
    qed
  qed
qed

text \<open>
  A batch run either fails before the submission phase, having posted nothing, or reaches
  it; an exception of the submission phase is the exception of the run.
\<close>

lemma run_batch_trigger:
  assumes "run_batch env w test items bid = (w', r)"
  shows "(\<exists>e. r = Inl e \<and> posted w' = posted w)
       \<or> (\<exists>mf pf w0 w1 r1. posted w0 = posted w
             \<and> trigger_workflows env bid mf pf items w0 = (w1, r1)
             \<and> (\<forall>e. r1 = Inl e \<longrightarrow> r = Inl e \<and> w' = w1)
             \<and> (\<forall>pids. r1 = Inr pids \<longrightarrow> (\<exists>resp. r = Inr resp)))"
proof -
  obtain w1 r1 where s1: "upload_model env w (et_nanabana_result_url test) = (w1, r1)"
    by (cases "upload_model env w (et_nanabana_result_url test)")
  note p1 = upload_model_posted[OF s1]
  show ?thesis
  proof (cases r1)
    case (Inl e)
    then show ?thesis using assms s1 p1 by (auto simp: run_batch_def)
  next
    case mf: (Inr mf)
    obtain w2 r2 where s2: "make_pose_folder env w1 = (w2, r2)" by (cases "make_pose_folder env w1")
    note p2 = make_pose_folder_posted[OF s2]
    show ?thesis
    proof (cases r2)
      case (Inl e)
      then show ?thesis using assms s1 mf s2 p1 p2 by (auto simp: run_batch_def)
    next
      case pf: (Inr pf)
      obtain w3 r3 where s3: "upload_poses env pf 0 items
          (say w2 (LogDownloadingPoses (length items))) = (w3, r3)"
        by (cases "upload_poses env pf 0 items (say w2 (LogDownloadingPoses (length items)))")
      note p3 = upload_poses_posted[OF s3]
      show ?thesis
      proof (cases r3)
        case (Some e)
        then show ?thesis using assms s1 mf s2 pf s3 p1 p2 p3 by (auto simp: run_batch_def)
      next
        case None
        obtain w4 r4 where s4: "trigger_workflows env bid mf pf items
            (say w3 (LogPosesUploaded pf)) = (w4, r4)"
          by (cases "trigger_workflows env bid mf pf items (say w3 (LogPosesUploaded pf))")
        have p0: "posted (say w3 (LogPosesUploaded pf)) = posted w" using p1 p2 p3 by simp
        have a: "r = Inl e \<and> w' = w4" if "r4 = Inl e" for e
          using that assms s1 mf s2 pf s3 None s4 by (simp add: run_batch_def)
        have b: "\<exists>resp. r = Inr resp" if "r4 = Inr pids" for pids
          using that assms s1 mf s2 pf s3 None s4
          by (auto simp: run_batch_def split: prod.splits)
        show ?thesis using p0 s4 a b by blast
      qed
    qed
  qed
qed

text \<open>When the batch run raises, the handler marks the batch failed with the text of the
  exception and answers 500.\<close>

lemma approve_edit_handler:
  assumes "find (\<lambda>r. et_id r = test_id) (edit_tests w) = Some test"
    and "select_other_images w test \<noteq> []"
    and "new_batch_id env \<notin> set (map b_id (comfyui_batches w))"
  shows "\<exists>w2 t w3 r. posted w2 = posted w
     \<and> run_batch env w2 t (select_other_images w test) (new_batch_id env) = (w3, r)
     \<and> posted (fst (approve_edit env w test_id notes)) = posted w3
     \<and> (\<forall>e. r = Inl e \<longrightarrow>
          (\<exists>b. filter (\<lambda>b. b_id b = new_batch_id env)
                  (comfyui_batches (fst (approve_edit env w test_id notes))) = [b]
             \<and> b_status b = ''failed'' \<and> b_error_message b = Some (exn_str e))
          \<and> LogBatchError e \<in> set (stdout (fst (approve_edit env w test_id notes)))
          \<and> snd (approve_edit env w test_id notes)
               = Inr (JObj [(''success'', JAtom (ABool False)), (''error'', jstr (exn_str e))], 500))"
proof -
  let ?bid = "new_batch_id env"
  define t where "t = test\<lparr>et_status := ''approved'', et_approved_at := Some (now env 0),
                 et_notes := Some notes\<rparr>"
  define w1 where "w1 = w\<lparr>edit_tests := mark_approved test_id (now env 0) notes (edit_tests w)\<rparr>"
  define items where "items = select_other_images w test"
  note ae = approve_edit_found[OF assms(1) t_def w1_def items_def]
  have ne: "items \<noteq> []" using assms(2) by (simp add: items_def)
  have fresh: "?bid \<notin> set (map b_id (comfyui_batches w1))" using assms(3) by (simp add: w1_def)
  from insert_batch_fresh[OF fresh, of test_id t items]
  obtain w2 b0 where ins: "insert_batch env w1 test_id t items = Inr w2"
    and t2: "comfyui_batches w2 = comfyui_batches w1 @ [b0]"
    and b0: "b_id b0 = ?bid" and p2: "posted w2 = posted w1"
    by blast
  have p2': "posted w2 = posted w" using p2 by (simp add: w1_def)
  obtain w3 r where rb: "run_batch env w2 t items ?bid = (w3, r)"
    by (cases "run_batch env w2 t items ?bid")
  have post: "posted (fst (approve_edit env w test_id notes)) = posted w3"
    unfolding ae using ne ins rb
    by (cases r) (simp_all add: fail_batch_def update_batch_def)
  have exn: "(\<exists>b. filter (\<lambda>b. b_id b = ?bid)
                  (comfyui_batches (fst (approve_edit env w test_id notes))) = [b]
             \<and> b_status b = ''failed'' \<and> b_error_message b = Some (exn_str e))
          \<and> LogBatchError e \<in> set (stdout (fst (approve_edit env w test_id notes)))
          \<and> snd (approve_edit env w test_id notes)
               = Inr (JObj [(''success'', JAtom (ABool False)), (''error'', jstr (exn_str e))], 500)"
    if e: "r = Inl e" for e
  proof -
    define f :: "batch \<Rightarrow> batch" where
      "f = (\<lambda>b. b\<lparr>b_status := ''failed'', b_error_message := Some (exn_str e),
                b_completed_at := Some (now env 1)\<rparr>)"
    from run_batch_cases[OF rb] e have t3: "comfyui_batches w3 = comfyui_batches w2" by auto
    have a: "approve_edit env w test_id notes =
        (fst (fail_batch env ?bid e w3), Inr (snd (fail_batch env ?bid e w3)))"
      unfolding ae using ne ins rb e by (simp split: prod.splits)
    have "comfyui_batches (fst (approve_edit env w test_id notes))
        = map (\<lambda>b. if b_id b = ?bid then f b else b) (comfyui_batches w1 @ [b0])"
      unfolding a using t3 t2 by (simp add: fail_batch_def update_batch_def f_def)
    moreover have "b_id (f b0) = ?bid" using b0 by (simp add: f_def)
    ultimately have "filter (\<lambda>b. b_id b = ?bid)
                (comfyui_batches (fst (approve_edit env w test_id notes))) = [f b0]"
      using filter_update_fresh[OF fresh b0, of f] by simp
    moreover have "b_status (f b0) = ''failed''" "b_error_message (f b0) = Some (exn_str e)"
      by (simp_all add: f_def)
    moreover have "LogBatchError e \<in> set (stdout (fst (approve_edit env w test_id notes)))"
      unfolding a by (simp add: fail_batch_def update_batch_def say_def)
    moreover have "snd (approve_edit env w test_id notes)
               = Inr (JObj [(''success'', JAtom (ABool False)), (''error'', jstr (exn_str e))], 500)"
      unfolding a by (simp add: fail_batch_def)
    ultimately show ?thesis by simp
  qed
  show ?thesis using p2' rb post exn unfolding items_def by blast
qed

section \<open>File names and payloads by position\<close>

lemma upload_poses_files:
  "upload_poses env pf i items w = (w', None) \<Longrightarrow>
   \<exists>new. render_input w' = render_input w @ new \<and> length new = length items
     \<and> (\<forall>j < length items. \<exists>c. get_pose env (i + j) (img_url (items ! j)) = Inr c
            \<and> new ! j = (input_dir @ pf @ ''/'' @ pose_name (i + j) @ ''.jpg'', c))"
proof (induction items arbitrary: i w)
  case Nil
  then show ?case by simp
next
  case (Cons img rest)
  from Cons.prems obtain c where g: "get_pose env i (img_url img) = Inr c"
    by (cases "get_pose env i (img_url img)") auto
  let ?dest = "input_dir @ pf @ ''/'' @ pose_name i @ ''.jpg''"
  from Cons.prems g have s: "scp_pose env i ?dest = None"
    by (cases "scp_pose env i ?dest") (auto simp: Let_def)
  let ?w1 = "w\<lparr>render_input := render_input w @ [(?dest, c)]\<rparr>"
  have "upload_poses env pf (i + 1) rest ?w1 = (w', None)"
    using Cons.prems g s by (simp add: Let_def)
  from Cons.IH[OF this] obtain new where
    r: "render_input w' = render_input ?w1 @ new" and l: "length new = length rest"
    and n: "\<forall>j < length rest. \<exists>c. get_pose env (i + 1 + j) (img_url (rest ! j)) = Inr c
            \<and> new ! j = (input_dir @ pf @ ''/'' @ pose_name (i + 1 + j) @ ''.jpg'', c)"
    by blast
  let ?new = "(?dest, c) # new"
  have "render_input w' = render_input w @ ?new" using r by simp
  moreover have "length ?new = length (img # rest)" using l by simp
  moreover have "\<forall>j < length (img # rest).
      \<exists>c. get_pose env (i + j) (img_url ((img # rest) ! j)) = Inr c
            \<and> ?new ! j = (input_dir @ pf @ ''/'' @ pose_name (i + j) @ ''.jpg'', c)"
  proof (intro allI impI)
    fix j assume "j < length (img # rest)"
    then show "\<exists>c. get_pose env (i + j) (img_url ((img # rest) ! j)) = Inr c
            \<and> ?new ! j = (input_dir @ pf @ ''/'' @ pose_name (i + j) @ ''.jpg'', c)"
      using g n by (cases j) auto
  qed
  ultimately show ?case by blast
qed

lemma trigger_workflows_posted:
  assumes "trigger_workflows env bid mf pf items w = (w', r)"
  shows "\<exists>new. posted w' = posted w @ new \<and> length new \<le> length items
     \<and> (\<forall>j < length new. \<exists>g. new ! j = JObj [(''prompt'', g)]
            \<and> jinstantiate (case load_template env of Inr d \<Rightarrow> d | Inl e \<Rightarrow> JObj [])
                 mf pf j (randint env j) bid = Inr g)
     \<and> (\<forall>pids. r = Inr pids \<longrightarrow> length new = length items
           \<and> pids = List.map_filter (\<lambda>k. job_id (post_prompt env k)) [0..<length items])"
proof (cases "load_template env")
  case (Inl e)
  then have "w' = w" "r = Inl e" using assms by (simp_all add: trigger_workflows_def)
  then show ?thesis by simp
next
  case (Inr doc)
  obtain w1 r1 where s: "jsubmit_all env bid mf pf doc (length items) 0 items []
             (say w (LogTriggering (length items))) = (w1, r1)"
    by (cases "jsubmit_all env bid mf pf doc (length items) 0 items []
             (say w (LogTriggering (length items)))")
  have t: "(case r1 of Inl e \<Rightarrow> (w1, Inl e)
             | Inr prompt_ids \<Rightarrow> (say w1 (LogAllTriggered prompt_ids), Inr prompt_ids)) = (w', r)"
    using assms unfolding trigger_workflows_doc[OF Inr] s prod.case .
  have "posted w' = posted w1 \<and> r = r1"
    using t by (cases r1) auto
  then have p: "posted w' = posted w1" and rr: "r = r1" by simp_all
  from jsubmit_all_posted[OF s] obtain new where
    a: "posted w1 = posted (say w (LogTriggering (length items))) @ new"
    and b: "length new \<le> length items"
    and c: "\<forall>j < length new. \<exists>g. new ! j = JObj [(''prompt'', g)]
            \<and> jinstantiate doc mf pf (0 + j) (randint env (0 + j)) bid = Inr g"
    and d: "\<forall>pids'. r1 = Inr pids' \<longrightarrow>
           length new = length items
           \<and> pids' = [] @ List.map_filter (\<lambda>k. job_id (post_prompt env k)) [0..<0 + length items]
           \<and> stdout w1 = stdout (say w (LogTriggering (length items))) @ List.map_filter
                 (\<lambda>k. map_option (LogPoseTriggered (k + 1) (length items)) (job_id (post_prompt env k)))
                 [0..<0 + length items]"
    by blast
  have a': "posted w' = posted w @ new" using a p by (simp add: say_posted)
  have c': "\<forall>j < length new. \<exists>g. new ! j = JObj [(''prompt'', g)]
            \<and> jinstantiate (case load_template env of Inr d \<Rightarrow> d | Inl e \<Rightarrow> JObj [])
                 mf pf j (randint env j) bid = Inr g"
    using c by (simp add: Inr)
  have d': "\<forall>pids. r = Inr pids \<longrightarrow> length new = length items
           \<and> pids = List.map_filter (\<lambda>k. job_id (post_prompt env k)) [0..<length items]"
    using d rr by simp
  from a' b c' d' show ?thesis by blast
qed

section \<open>The completion loop: requests and stored objects\<close>

lemma poll_job_world:
  "snd (poll_job env idx pid a w) = snd (poll_job env idx pid a w')
   \<and> view_requests (fst (poll_job env idx pid a w)) = view_requests w
   \<and> bucket (fst (poll_job env idx pid a w)) = bucket w
   \<and> scp_fetched (fst (poll_job env idx pid a w)) = scp_fetched w"
proof (induction env idx pid a w arbitrary: w' rule: poll_job.induct)
  case (1 env idx pid a w)
  show ?case
  proof (cases "a < max_attempts")
    case False
    then show ?thesis by (simp add: poll_job_stop)
  next
    case True
    show ?thesis
    proof (cases "check_history (get_history env idx (a + 1)) pid")
      case Pending
      let ?n = "\<lambda>w. if (a + 1) mod 6 = 0
             then say (wait_query (sleep w 5) (history_seconds env idx (a + 1))) (LogAttempt (a + 1) max_attempts (idx + 1))
             else wait_query (sleep w 5) (history_seconds env idx (a + 1))"
      have e: "poll_job env idx pid a w = poll_job env idx pid (a + 1) (?n w)" for w
        by (rule poll_job_pending[OF True Pending])
      have f: "view_requests (?n w) = view_requests w" "bucket (?n w) = bucket w"
        "scp_fetched (?n w) = scp_fetched w"
        by (simp_all add: say_def sleep_def wait_query_def)
      from "1.IH"(1)[OF True refl refl refl Pending, of "?n w'"] show ?thesis
        unfolding e f .
    next
      case (Done f)
      show ?thesis unfolding poll_job_done[OF True Done] by (simp add: sleep_def wait_query_def)
    next
      case (Failed x)
      let ?n = "\<lambda>w. say (wait_query (sleep w 5) (history_seconds env idx (a + 1))) (LogPollError x)"
      have e: "poll_job env idx pid a w = poll_job env idx pid (a + 1) (?n w)" for w
        by (rule poll_job_failed[OF True Failed])
      have f: "view_requests (?n w) = view_requests w" "bucket (?n w) = bucket w"
        "scp_fetched (?n w) = scp_fetched w"
        by (simp_all add: say_def sleep_def wait_query_def)
      from "1.IH"(2)[OF True refl refl refl Failed, of "?n w'"] show ?thesis
        unfolding e f .
    qed
  qed
qed

lemma poll_job_output:
  assumes "poll_job env idx pid 0 w = (w1, out, k)"
  shows "out = job_output env idx pid" "view_requests w1 = view_requests w" "bucket w1 = bucket w"
proof -
  have "fst (snd (poll_job env idx pid 0 w)) = job_output env idx pid"
    unfolding job_output_def
    by (rule arg_cong[where f = fst]) (rule poll_job_world[THEN conjunct1])
  then show "out = job_output env idx pid" unfolding assms by simp
  from poll_job_world[of env idx pid 0 w, THEN conjunct2]
  show "view_requests w1 = view_requests w" "bucket w1 = bucket w"
    unfolding assms by simp_all
qed

lemma download_and_store_files:
  "view_requests (fst (download_and_store env bid idx w)) = view_requests w @ [view_url bid idx]"
  "map fst (bucket (fst (download_and_store env bid idx w)))
     = map fst (bucket w) @ (if stores env bid idx then [storage_path_of bid idx] else [])"
  by (auto simp: download_and_store_def Let_def say_def stores_def
      split: sum.splits option.splits)

lemma upt_from: "[idx..<idx + Suc n] = idx # [Suc idx..<Suc idx + n]"
  by (simp add: upt_conv_Cons del: upt_Suc)

lemma collect_results_files:
  "view_requests (fst (collect_results env bid n idx pids c w))
     = view_requests w @ map (view_url bid)
         (filter (\<lambda>j. truthy (job_output env j (pids ! (j - idx)))) [idx..<idx + length pids])
   \<and> map fst (bucket (fst (collect_results env bid n idx pids c w)))
     = map fst (bucket w) @ map (storage_path_of bid)
         (filter (\<lambda>j. truthy (job_output env j (pids ! (j - idx))) \<and> stores env bid j)
            [idx..<idx + length pids])"
proof (induction pids arbitrary: idx c w)
  case Nil
  show ?case by simp
next
  case (Cons pid rest)
  obtain w1 out k where p: "poll_job env idx pid 0 (say w (LogPolling (idx + 1) n pid)) = (w1, out, k)"
    by (cases "poll_job env idx pid 0 (say w (LogPolling (idx + 1) n pid))") auto
  from poll_job_output[OF p] have o: "out = job_output env idx pid"
    and v1: "view_requests w1 = view_requests w" and b1: "bucket w1 = bucket w"
    by (simp_all add: say_def)
  have nn: "(pid # rest) ! (j - idx) = rest ! (j - Suc idx)" if "Suc idx \<le> j" for j
  proof -
    from that have "j - idx = Suc (j - Suc idx)" by simp
    then show ?thesis by simp
  qed
  have t1: "filter (\<lambda>j. truthy (job_output env j ((pid # rest) ! (j - idx))))
              [Suc idx..<Suc idx + length rest]
          = filter (\<lambda>j. truthy (job_output env j (rest ! (j - Suc idx))))
              [Suc idx..<Suc idx + length rest]"
  proof (rule filter_cong[OF refl])
    fix j assume "j \<in> set [Suc idx..<Suc idx + length rest]"
    then have "Suc idx \<le> j" by (simp del: upt_Suc)
    from nn[OF this]
    show "truthy (job_output env j ((pid # rest) ! (j - idx)))
        = truthy (job_output env j (rest ! (j - Suc idx)))" by simp
  qed
  have t2: "filter (\<lambda>j. truthy (job_output env j ((pid # rest) ! (j - idx))) \<and> stores env bid j)
              [Suc idx..<Suc idx + length rest]
          = filter (\<lambda>j. truthy (job_output env j (rest ! (j - Suc idx))) \<and> stores env bid j)
              [Suc idx..<Suc idx + length rest]"
  proof (rule filter_cong[OF refl])
    fix j assume "j \<in> set [Suc idx..<Suc idx + length rest]"
    then have "Suc idx \<le> j" by (simp del: upt_Suc)
    from nn[OF this]
    show "(truthy (job_output env j ((pid # rest) ! (j - idx))) \<and> stores env bid j)
        = (truthy (job_output env j (rest ! (j - Suc idx))) \<and> stores env bid j)" by simp
  qed
  have l: "[idx..<idx + length (pid # rest)] = idx # [Suc idx..<Suc idx + length rest]"
    using upt_from[of idx "length rest"] by simp
  show ?case
  proof (cases "truthy out")
    case False
    have s: "collect_results env bid n idx (pid # rest) c w
           = collect_results env bid n (idx + 1) rest c (say w1 (LogTimedOut (idx + 1)))"
      unfolding collect_results.simps p prod.case using False by simp
    have f: "\<not> truthy (job_output env idx pid)" using False o by simp
    from Cons.IH[of "idx + 1" c "say w1 (LogTimedOut (idx + 1))"]
    show ?thesis unfolding s l using f v1 b1 t1 t2 by (simp add: say_def)
  next
    case True
    have f: "truthy (job_output env idx pid)" using True o by simp
    let ?w = "say w1 (LogPoseComplete (idx + 1))"
    obtain w2 d where d: "download_and_store env bid idx ?w = (w2, d)"
      by (cases "download_and_store env bid idx ?w")
    from download_and_store_files[of env bid idx ?w]
    have v2: "view_requests w2 = view_requests w @ [view_url bid idx]"
      and b2: "map fst (bucket w2)
         = map fst (bucket w) @ (if stores env bid idx then [storage_path_of bid idx] else [])"
      unfolding d using v1 b1 by (simp_all add: say_def)
    show ?thesis
    proof (cases d)
      case (Inl e)
      have s: "collect_results env bid n idx (pid # rest) c w
           = collect_results env bid n (idx + 1) rest c
               (say w2 (LogDownloadError (idx + 1) e))"
        unfolding collect_results.simps p prod.case using True d Inl by simp
      from Cons.IH[of "idx + 1" c "say w2 (LogDownloadError (idx + 1) e)"]
      show ?thesis unfolding s l using f v2 b2 t1 t2 by (simp add: say_def)
    next
      case (Inr u)
      have s: "collect_results env bid n idx (pid # rest) c w
           = collect_results env bid n (idx + 1) rest (c @ [u]) w2"
        unfolding collect_results.simps p prod.case using True d Inr by simp
      from Cons.IH[of "idx + 1" "c @ [u]" w2]
      show ?thesis unfolding s l using f v2 b2 t1 t2 by simp
    qed
  qed
qed

lemma filter_upt_index:
  "i < length (filter P [0..<n]) \<Longrightarrow>
     filter P [0..<n] ! i < n \<and> P (filter P [0..<n] ! i)
     \<and> length (filter P [0..<filter P [0..<n] ! i]) = i"
proof (induction n)
  case 0
  then show ?case by simp
next
  case (Suc n)
  have a: "filter P [0..<Suc n] = filter P [0..<n] @ (if P n then [n] else [])" by simp
  show ?case
  proof (cases "i < length (filter P [0..<n])")
    case True
    define p where "p = filter P [0..<n] ! i"
    have e: "filter P [0..<Suc n] ! i = p"
      unfolding a p_def using True by (simp only: nth_append if_True)
    from Suc.IH[OF True] have "p < n \<and> P p \<and> length (filter P [0..<p]) = i"
      unfolding p_def .
    then have "p < Suc n \<and> P p \<and> length (filter P [0..<p]) = i" by simp
    then show ?thesis unfolding e .
  next
    case False
    from Suc.prems have "i < length (filter P [0..<n]) + (if P n then 1 else 0)"
      unfolding a by (simp split: if_splits)
    with False have pn: "P n" and i: "i = length (filter P [0..<n])"
      by (auto split: if_splits)
    have e: "filter P [0..<Suc n] ! i = n"
      unfolding a using pn i by (simp add: nth_append)
    show ?thesis unfolding e using pn i by simp
  qed
qed

lemma filter_upt_position:
  assumes "i < length (filter P [0..<n])"
  shows "i \<le> filter P [0..<n] ! i"
    and "(i = filter P [0..<n] ! i) = (\<forall>q < filter P [0..<n] ! i. P q)"
proof -
  define p where "p = filter P [0..<n] ! i"
  have e: "length (filter P [0..<p]) = i"
    unfolding p_def by (rule filter_upt_index[OF assms, THEN conjunct2, THEN conjunct2])
  have "length (filter P [0..<p]) \<le> length [0..<p]" by (rule length_filter_le)
  then have le: "i \<le> p" unfolding e by simp
  have c: "length (filter P [0..<p]) + length (filter (\<lambda>q. \<not> P q) [0..<p]) = p"
    using sum_length_filter_compl[of P "[0..<p]"] by simp
  have "(i = p) = (filter (\<lambda>q. \<not> P q) [0..<p] = [])"
    using c unfolding e by auto
  also have "\<dots> = (\<forall>q < p. P q)" by (auto simp: filter_empty_conv)
  finally have iff: "(i = p) = (\<forall>q < p. P q)" .
  show "i \<le> filter P [0..<n] ! i" using le unfolding p_def .
  show "(i = filter P [0..<n] ! i) = (\<forall>q < filter P [0..<n] ! i. P q)"
    using iff unfolding p_def .
qed

section \<open>The two download paths\<close>

lemma collect_results_scp_fetched:
  "scp_fetched (fst (collect_results env bid n idx pids c w)) = scp_fetched w"
proof (induction pids arbitrary: idx c w)
  case Nil
  show ?case by simp
next
  case (Cons pid rest)
  obtain w1 out k where p: "poll_job env idx pid 0 (say w (LogPolling (idx + 1) n pid)) = (w1, out, k)"
    by (cases "poll_job env idx pid 0 (say w (LogPolling (idx + 1) n pid))") auto
  from poll_job_world[of env idx pid 0 "say w (LogPolling (idx + 1) n pid)"]
  have s1: "scp_fetched w1 = scp_fetched w" unfolding p by (simp add: say_def)
  show ?case
  proof (cases "truthy out")
    case False
    have s: "collect_results env bid n idx (pid # rest) c w
           = collect_results env bid n (idx + 1) rest c (say w1 (LogTimedOut (idx + 1)))"
      unfolding collect_results.simps p prod.case using False by simp
    show ?thesis unfolding s Cons.IH using s1 by (simp add: say_def)
  next
    case True
    let ?w = "say w1 (LogPoseComplete (idx + 1))"
    obtain w2 d where d: "download_and_store env bid idx ?w = (w2, d)"
      by (cases "download_and_store env bid idx ?w")
    have s2: "scp_fetched w2 = scp_fetched w"
      using d s1 by (auto simp: download_and_store_def Let_def say_def
          split: sum.splits option.splits)
    show ?thesis
    proof (cases d)
      case (Inl e)
      have s: "collect_results env bid n idx (pid # rest) c w
           = collect_results env bid n (idx + 1) rest c
               (say w2 (LogDownloadError (idx + 1) e))"
        unfolding collect_results.simps p prod.case using True d Inl by simp
      show ?thesis unfolding s Cons.IH using s2 by (simp add: say_def)
    next
      case (Inr u)
      have s: "collect_results env bid n idx (pid # rest) c w
           = collect_results env bid n (idx + 1) rest (c @ [u]) w2"
        unfolding collect_results.simps p prod.case using True d Inr by simp
      show ?thesis unfolding s Cons.IH using s2 by simp
    qed
  qed
qed

lemma collect_results_first_request:
  assumes "fst (snd (poll_job env idx pid 0 (say w (LogPolling (idx + 1) n pid)))) = Some f"
    and "f \<noteq> []"
  shows "\<exists>later. view_requests (fst (collect_results env bid n idx (pid # rest) c w))
           = view_requests w @ view_url bid idx # later"
proof -
  have "job_output env idx pid = Some f"
    unfolding job_output_def assms(1)[symmetric]
    by (rule arg_cong[where f = fst]) (rule poll_job_world[THEN conjunct1])
  then have t: "truthy (job_output env idx ((pid # rest) ! (idx - idx)))"
    using assms(2) by simp
  have l: "[idx..<idx + length (pid # rest)] = idx # [Suc idx..<Suc idx + length rest]"
    using upt_from[of idx "length rest"] by simp
  show ?thesis
    unfolding collect_results_files[THEN conjunct1] l filter.simps using t by simp
qed

lemma pt_upload_inputs_frame:
  "scp_fetched (fst (pt_upload_inputs env w m p)) = scp_fetched w
   \<and> view_requests (fst (pt_upload_inputs env w m p)) = view_requests w"
  by (auto simp: pt_upload_inputs_def Let_def say_def split: sum.splits option.splits)

lemma pt_retrieve_frame:
  "scp_fetched (fst (pt_retrieve env pid f w)) = scp_fetched w @ [''/workspace/ComfyUI/output/'' @ f]
   \<and> view_requests (fst (pt_retrieve env pid f w)) = view_requests w"
  by (auto simp: pt_retrieve_def Let_def say_def split: sum.splits option.splits)

lemma pt_poll_world:
  "snd (pt_poll env pid a w) = snd (pt_poll env pid a w')
   \<and> scp_fetched (fst (pt_poll env pid a w)) = scp_fetched w
   \<and> view_requests (fst (pt_poll env pid a w)) = view_requests w"
proof (induction env pid a w arbitrary: w' rule: pt_poll.induct)
  case (1 env pid a w)
  let ?c = "case pid of
              Some p \<Rightarrow> check_history (pt_history env (a + 1)) p
            | None \<Rightarrow> (case pt_history env (a + 1) of
                          HistoryRaises e \<Rightarrow> Failed e
                        | HistoryData history_data \<Rightarrow> Pending)"
  show ?case
  proof (cases "a < 40")
    case False
    have e: "pt_poll env pid a w = (w, Inr None)" for w
      by (subst pt_poll.simps) (simp add: False)
    show ?thesis unfolding e by simp
  next
    case True
    show ?thesis
    proof (cases ?c)
      case Pending
      have e: "pt_poll env pid a w
             = pt_poll env pid (a + 1) (say (sleep w 3) (LogPtAttempt (a + 1) 40))" for w
        by (subst pt_poll.simps) (simp only: True Pending Let_def if_True poll_result.case)
      have f: "scp_fetched (say (sleep w 3) (LogPtAttempt (a + 1) 40)) = scp_fetched w"
        "view_requests (say (sleep w 3) (LogPtAttempt (a + 1) 40)) = view_requests w"
        by (simp_all add: say_def sleep_def)
      from "1.IH"[OF True refl refl Pending, of "say (sleep w' 3) (LogPtAttempt (a + 1) 40)"]
      show ?thesis unfolding e f .
    next
      case (Done g)
      have e: "pt_poll env pid a w = (sleep w 3, Inr g)" for w
        by (subst pt_poll.simps) (simp only: True Done Let_def if_True poll_result.case)
      show ?thesis unfolding e by (simp add: sleep_def)
    next
      case (Failed x)
      have e: "pt_poll env pid a w = (sleep w 3, Inl x)" for w
        by (subst pt_poll.simps) (simp only: True Failed Let_def if_True poll_result.case)
      show ?thesis unfolding e by (simp add: sleep_def)
    qed
  qed
qed

section \<open>The submission phase: when it returns and when it raises\<close>

lemma jsubmit_all_returns:
  "\<forall>j < length items. \<exists>g. jinstantiate doc mf pf (i + j) (randint env (i + j)) bid = Inr g \<Longrightarrow>
   \<forall>j < length items. \<forall>e. post_prompt env (i + j) \<noteq> PostRaises e \<Longrightarrow>
   \<exists>pids'. snd (jsubmit_all env bid mf pf doc n i items pids w) = Inr pids'"
proof (induction items arbitrary: i pids w)
  case Nil
  show ?case by simp
next
  case (Cons img rest)
  from Cons.prems(1) obtain g where g: "jinstantiate doc mf pf i (randint env i) bid = Inr g"
    by fastforce
  have r1: "\<forall>j < length rest.
      \<exists>g. jinstantiate doc mf pf (i + 1 + j) (randint env (i + 1 + j)) bid = Inr g"
  proof (intro allI impI)
    fix j assume "j < length rest"
    then have "Suc j < length (img # rest)" by simp
    from Cons.prems(1)[rule_format, OF this]
    show "\<exists>g. jinstantiate doc mf pf (i + 1 + j) (randint env (i + 1 + j)) bid = Inr g"
      by simp
  qed
  have r2: "\<forall>j < length rest. \<forall>e. post_prompt env (i + 1 + j) \<noteq> PostRaises e"
  proof (intro allI impI)
    fix j e assume "j < length rest"
    then have "Suc j < length (img # rest)" by simp
    from Cons.prems(2)[rule_format, OF this, of e]
    show "post_prompt env (i + 1 + j) \<noteq> PostRaises e" by simp
  qed
  have nr: "post_prompt env i \<noteq> PostRaises e" for e
    using Cons.prems(2)[rule_format, of 0 e] by simp
  let ?w1 = "w\<lparr>posted := posted w @ [JObj [(''prompt'', g)]]\<rparr>"
  show ?case
  proof (cases "post_prompt env i")
    case (PostRaises e)
    then show ?thesis using nr by simp
  next
    case PostNoId
    have "jsubmit_all env bid mf pf doc n i (img # rest) pids w
        = jsubmit_all env bid mf pf doc n (i + 1) rest pids (sleep ?w1 1)"
      using g PostNoId by (simp add: Let_def)
    then show ?thesis using Cons.IH[OF r1 r2] by simp
  next
    case (PostId p)
    have "jsubmit_all env bid mf pf doc n i (img # rest) pids w
        = jsubmit_all env bid mf pf doc n (i + 1) rest (pids @ [p])
            (sleep (say ?w1 (LogPoseTriggered (i + 1) n p)) 1)"
      using g PostId by (simp add: Let_def)
    then show ?thesis using Cons.IH[OF r1 r2] by simp
  qed
qed

lemma jsubmit_all_first_raise:
  "k < length items \<Longrightarrow>
   \<forall>j \<le> k. \<exists>g. jinstantiate doc mf pf (i + j) (randint env (i + j)) bid = Inr g \<Longrightarrow>
   \<forall>j < k. \<forall>e'. post_prompt env (i + j) \<noteq> PostRaises e' \<Longrightarrow>
   post_prompt env (i + k) = PostRaises e \<Longrightarrow>
   snd (jsubmit_all env bid mf pf doc n i items pids w) = Inl e
   \<and> length (posted (fst (jsubmit_all env bid mf pf doc n i items pids w)))
       = length (posted w) + k + 1"
proof (induction items arbitrary: i k pids w)
  case Nil
  then show ?case by simp
next
  case (Cons img rest)
  from Cons.prems(2) obtain g where g: "jinstantiate doc mf pf i (randint env i) bid = Inr g"
    by fastforce
  let ?w1 = "w\<lparr>posted := posted w @ [JObj [(''prompt'', g)]]\<rparr>"
  show ?case
  proof (cases k)
    case 0
    then have "post_prompt env i = PostRaises e" using Cons.prems(4) by simp
    then show ?thesis using g 0 by (simp add: Let_def)
  next
    case (Suc k')
    have k': "k' < length rest" using Cons.prems(1) Suc by simp
    have r1: "\<forall>j \<le> k'.
        \<exists>g. jinstantiate doc mf pf (i + 1 + j) (randint env (i + 1 + j)) bid = Inr g"
    proof (intro allI impI)
      fix j assume "j \<le> k'"
      then have "Suc j \<le> k" using Suc by simp
      from Cons.prems(2)[rule_format, OF this]
      show "\<exists>g. jinstantiate doc mf pf (i + 1 + j) (randint env (i + 1 + j)) bid = Inr g"
        by simp
    qed
    have r2: "\<forall>j < k'. \<forall>e'. post_prompt env (i + 1 + j) \<noteq> PostRaises e'"
    proof (intro allI impI)
      fix j e' assume "j < k'"
      then have "Suc j < k" using Suc by simp
      from Cons.prems(3)[rule_format, OF this, of e']
      show "post_prompt env (i + 1 + j) \<noteq> PostRaises e'" by simp
    qed
    have r3: "post_prompt env (i + 1 + k') = PostRaises e" using Cons.prems(4) Suc by simp
    have nr: "post_prompt env i \<noteq> PostRaises e'" for e'
      using Cons.prems(3)[rule_format, of 0 e'] Suc by simp
    show ?thesis
    proof (cases "post_prompt env i")
      case (PostRaises e')
      then show ?thesis using nr by simp
    next
      case PostNoId
      have s: "jsubmit_all env bid mf pf doc n i (img # rest) pids w
          = jsubmit_all env bid mf pf doc n (i + 1) rest pids (sleep ?w1 1)"
        using g PostNoId by (simp add: Let_def)
      have l: "length (posted (sleep ?w1 1)) = length (posted w) + 1" by (simp add: sleep_def)
      from Cons.IH[OF k' r1 r2 r3, of pids "sleep ?w1 1"] show ?thesis
        unfolding s l using Suc by simp
    next
      case (PostId p)
      let ?w2 = "sleep (say ?w1 (LogPoseTriggered (i + 1) n p)) 1"
      have s: "jsubmit_all env bid mf pf doc n i (img # rest) pids w
          = jsubmit_all env bid mf pf doc n (i + 1) rest (pids @ [p]) ?w2"
        using g PostId by (simp add: Let_def)
      have l: "length (posted ?w2) = length (posted w) + 1" by (simp add: sleep_def say_def)
      from Cons.IH[OF k' r1 r2 r3, of "pids @ [p]" ?w2] show ?thesis
        unfolding s l using Suc by simp
    qed
  qed
qed

lemma trigger_workflows_returns:
  assumes "load_template env = Inr doc"
    and "\<forall>j < length items. \<exists>g. jinstantiate doc mf pf j (randint env j) bid = Inr g"
    and "\<forall>j < length items. \<forall>e. post_prompt env j \<noteq> PostRaises e"
  shows "\<exists>pids. snd (trigger_workflows env bid mf pf items w) = Inr pids"
proof -
  let ?s = "jsubmit_all env bid mf pf doc (length items) 0 items []
             (say w (LogTriggering (length items)))"
  have p2: "\<forall>j < length items.
      \<exists>g. jinstantiate doc mf pf (0 + j) (randint env (0 + j)) bid = Inr g"
    using assms(2) by simp
  have p3: "\<forall>j < length items. \<forall>e. post_prompt env (0 + j) \<noteq> PostRaises e"
    using assms(3) by simp
  from jsubmit_all_returns[OF p2 p3]
  have "\<exists>pids. snd ?s = Inr pids" .
  then obtain pids where a: "snd ?s = Inr pids" ..
  obtain w1 where c: "?s = (w1, Inr pids)"
    using a by (cases ?s) simp
  have "trigger_workflows env bid mf pf items w = (say w1 (LogAllTriggered pids), Inr pids)"
    unfolding trigger_workflows_doc[OF assms(1)] c by simp
  then show ?thesis by simp
qed

lemma trigger_workflows_first_raise:
  assumes "load_template env = Inr doc"
    and "k < length items"
    and "\<forall>j \<le> k. \<exists>g. jinstantiate doc mf pf j (randint env j) bid = Inr g"
    and "\<forall>j < k. \<forall>e'. post_prompt env j \<noteq> PostRaises e'"
    and "post_prompt env k = PostRaises e"
  shows "snd (trigger_workflows env bid mf pf items w) = Inl e
       \<and> length (posted (fst (trigger_workflows env bid mf pf items w)))
           = length (posted w) + k + 1"
proof -
  let ?s = "jsubmit_all env bid mf pf doc (length items) 0 items []
             (say w (LogTriggering (length items)))"
  have p3: "\<forall>j \<le> k. \<exists>g. jinstantiate doc mf pf (0 + j) (randint env (0 + j)) bid = Inr g"
    using assms(3) by simp
  have p4: "\<forall>j < k. \<forall>e'. post_prompt env (0 + j) \<noteq> PostRaises e'"
    using assms(4) by simp
  have p5: "post_prompt env (0 + k) = PostRaises e" using assms(5) by simp
  from jsubmit_all_first_raise[OF assms(2) p3 p4 p5]
  have ab: "snd ?s = Inl e \<and> length (posted (fst ?s))
      = length (posted (say w (LogTriggering (length items)))) + k + 1" .
  obtain w1 where c: "?s = (w1, Inl e)"
    using ab by (cases ?s) simp
  have b: "length (posted w1) = length (posted w) + k + 1"
    using ab unfolding c by simp
  have "trigger_workflows env bid mf pf items w = (w1, Inl e)"
    unfolding trigger_workflows_doc[OF assms(1)] c by simp
  then show ?thesis using b by simp
qed

section \<open>Claims about the approval action as a whole\<close>

text \<open>
  C7. When the approved edit's carousel has no sibling image, the approval action returns
  before any batch is created: the answer is the success message, the only change to the state
  is the approval of the edit test, and no row is added to \<^verbatim>\<open>comfyui_batches\<close>.
\<close>

theorem approve_edit_no_siblings:
  assumes "find (\<lambda>r. et_id r = test_id) (edit_tests w) = Some test"
    and "select_other_images w test = []"
  shows "approve_edit env w test_id notes =
           (w\<lparr>edit_tests := mark_approved test_id (now env 0) notes (edit_tests w)\<rparr>,
            Inr (JObj [(''success'', JAtom (ABool True)),
                       (''message'', jstr ''Edit approved! No other images to process.'')], 200))
         \<and> comfyui_batches (fst (approve_edit env w test_id notes)) = comfyui_batches w"
  using assms(2) by (simp add: approve_edit_found[OF assms(1) refl refl refl])

theorem approve_edit_no_siblings_witness:
  "find (\<lambda>r. et_id r = ''t1'') (edit_tests (demo_world [demo_image ''i0'' 0])) = Some demo_test
   \<and> select_other_images (demo_world [demo_image ''i0'' 0]) demo_test = []
   \<and> snd (approve_edit (demo_env demo_template (\<lambda>k. PostNoId) (\<lambda>k a. HistoryData []))
            (demo_world [demo_image ''i0'' 0]) ''t1'' ''ok'')
       = Inr (JObj [(''success'', JAtom (ABool True)),
                    (''message'', jstr ''Edit approved! No other images to process.'')], 200)
   \<and> comfyui_batches (fst (approve_edit (demo_env demo_template (\<lambda>k. PostNoId) (\<lambda>k a. HistoryData []))
            (demo_world [demo_image ''i0'' 0]) ''t1'' ''ok'')) = []"
proof -
  note h1 = demo_find[of "[demo_image ''i0'' 0]"]
  note h2 = demo_no_siblings
  from approve_edit_no_siblings[OF h1 h2,
      of "demo_env demo_template (\<lambda>k. PostNoId) (\<lambda>k a. HistoryData [])" "''ok''"]
  show ?thesis using h1 h2 by (simp add: demo_world_def)
qed

text \<open>
  C10. The approval action marks the edit test approved, with the approval timestamp,
  before any batch work, and nothing afterwards writes to \<^verbatim>\<open>edit_tests\<close>: whatever the
  outcome of the batch run (every environment, so also a shared-setup failure and a run in
  which no item produces output), the table at the end is the table after that first
  update, and every row of the approved identifier has status \<^verbatim>\<open>approved\<close>. The failure of a
  batch is recorded in the batch row only.
\<close>

theorem approve_edit_keeps_approval:
  "edit_tests (fst (approve_edit env w test_id notes))
     = mark_approved test_id (now env 0) notes (edit_tests w)
   \<and> (\<forall>r \<in> set (edit_tests (fst (approve_edit env w test_id notes))).
        et_id r = test_id \<longrightarrow>
          et_status r = ''approved'' \<and> et_approved_at r = Some (now env 0))"
  unfolding approve_edit_edit_tests using mark_approved_rows by blast

text \<open>A run whose shared setup fails (the model image cannot be fetched): the edit test is
  approved all the same.\<close>

theorem approve_edit_keeps_approval_witness:
  "demo_test\<lparr>et_status := ''approved'', et_approved_at := Some ''2025-01-01T10:00:00'',
             et_notes := Some ''ok''\<rparr>
     \<in> set (edit_tests (fst (approve_edit
            ((demo_env demo_template (\<lambda>k. PostNoId) (\<lambda>k a. HistoryData []))
               \<lparr>get_model := (\<lambda>url. Inl (ExternalError ''404 Client Error''))\<rparr>)
            (demo_world [demo_image ''i0'' 0, demo_image ''i1'' 1]) ''t1'' ''ok'')))
   \<and> et_id (demo_test\<lparr>et_status := ''approved'', et_approved_at := Some ''2025-01-01T10:00:00'',
             et_notes := Some ''ok''\<rparr>) = ''t1''
   \<and> et_status (demo_test\<lparr>et_status := ''approved'',
             et_approved_at := Some ''2025-01-01T10:00:00'', et_notes := Some ''ok''\<rparr>) = ''approved''"
  using approve_edit_keeps_approval[of
      "(demo_env demo_template (\<lambda>k. PostNoId) (\<lambda>k a. HistoryData []))
               \<lparr>get_model := (\<lambda>url. Inl (ExternalError ''404 Client Error''))\<rparr>"
      "demo_world [demo_image ''i0'' 0, demo_image ''i1'' 1]" "''t1''" "''ok''"]
  by (simp add: mark_approved_def demo_world_def demo_test_def demo_env_def)

text \<open>
  C1. For an approved edit with N > 0 sibling items (and a batch identifier the datastore has
  not used), the batch row at the end of the approval action has at most N completed images
  (a column never written counts as the empty list), its status is \<^verbatim>\<open>failed\<close> exactly when
  there is none and \<^verbatim>\<open>completed\<close> exactly when there is at least one, and on the failed path
  an error message is recorded.
\<close>

theorem approve_edit_batch_outcome:
  assumes "find (\<lambda>r. et_id r = test_id) (edit_tests w) = Some test"
    and "select_other_images w test \<noteq> []"
    and "new_batch_id env \<notin> set (map b_id (comfyui_batches w))"
  shows "\<exists>b. filter (\<lambda>b. b_id b = new_batch_id env)
                (comfyui_batches (fst (approve_edit env w test_id notes))) = [b]
           \<and> length (case b_completed_images b of None \<Rightarrow> [] | Some imgs \<Rightarrow> imgs)
                \<le> length (select_other_images w test)
           \<and> (b_status b = ''failed'' \<longleftrightarrow>
                length (case b_completed_images b of None \<Rightarrow> [] | Some imgs \<Rightarrow> imgs) = 0)
           \<and> (b_status b = ''completed'' \<longleftrightarrow>
                (case b_completed_images b of None \<Rightarrow> [] | Some imgs \<Rightarrow> imgs) \<noteq> [])
           \<and> (b_status b = ''failed'' \<longrightarrow> b_error_message b \<noteq> None)"
proof -
  let ?bid = "new_batch_id env"
  define t where "t = test\<lparr>et_status := ''approved'', et_approved_at := Some (now env 0),
                 et_notes := Some notes\<rparr>"
  define w1 where "w1 = w\<lparr>edit_tests := mark_approved test_id (now env 0) notes (edit_tests w)\<rparr>"
  define items where "items = select_other_images w test"
  note ae = approve_edit_found[OF assms(1) t_def w1_def items_def]
  have ne: "items \<noteq> []" using assms(2) by (simp add: items_def)
  have fresh: "?bid \<notin> set (map b_id (comfyui_batches w1))" using assms(3) by (simp add: w1_def)
  from insert_batch_fresh[OF fresh, of test_id t items]
  obtain w2 b0 where ins: "insert_batch env w1 test_id t items = Inr w2"
    and t2: "comfyui_batches w2 = comfyui_batches w1 @ [b0]"
    and b0: "b_id b0 = ?bid" "b_completed_images b0 = None"
    by blast
  obtain w3 r where rb: "run_batch env w2 t items ?bid = (w3, r)"
    by (cases "run_batch env w2 t items ?bid")
  from run_batch_cases[OF rb]
  consider (exn) e where "r = Inl e" "comfyui_batches w3 = comfyui_batches w2"
    | (fin) imgs resp where "r = Inr resp" "length imgs \<le> length items"
        "comfyui_batches w3 =
            map (\<lambda>b. if b_id b = ?bid then final_row env imgs b else b) (comfyui_batches w2)"
    by blast
  then show ?thesis
  proof cases
    case exn
    define f :: "batch \<Rightarrow> batch" where "f = (\<lambda>b. b\<lparr>b_status := ''failed'', b_error_message := Some (exn_str e),
                b_completed_at := Some (now env 1)\<rparr>)"
    have "fst (approve_edit env w test_id notes) = fst (fail_batch env ?bid e w3)"
      unfolding ae using ne ins rb exn(1) by (simp split: prod.splits)
    then have "comfyui_batches (fst (approve_edit env w test_id notes))
        = map (\<lambda>b. if b_id b = ?bid then f b else b) (comfyui_batches w1 @ [b0])"
      using exn(2) t2 by (simp add: fail_batch_def update_batch_def f_def)
    moreover have "b_id (f b0) = ?bid" using b0 by (simp add: f_def)
    ultimately have "filter (\<lambda>b. b_id b = ?bid)
                (comfyui_batches (fst (approve_edit env w test_id notes))) = [f b0]"
      using filter_update_fresh[OF fresh b0(1), of f] by simp
    moreover have "b_status (f b0) = ''failed''" "b_completed_images (f b0) = None"
      "b_error_message (f b0) \<noteq> None"
      using b0 by (simp_all add: f_def)
    ultimately show ?thesis by simp
  next
    case fin
    have "fst (approve_edit env w test_id notes) = w3"
      unfolding ae using ne ins rb fin(1) by simp
    moreover have "b_id (final_row env imgs b0) = ?bid" using b0 by simp
    ultimately have "filter (\<lambda>b. b_id b = ?bid)
                (comfyui_batches (fst (approve_edit env w test_id notes)))
                 = [final_row env imgs b0]"
      using fin(3) t2 filter_update_fresh[OF fresh b0(1), of "final_row env imgs"] by simp
    moreover have "length (case b_completed_images (final_row env imgs b0) of
                       None \<Rightarrow> [] | Some imgs \<Rightarrow> imgs) \<le> length items"
      "b_status (final_row env imgs b0) = ''failed'' \<longleftrightarrow>
          length (case b_completed_images (final_row env imgs b0) of
                       None \<Rightarrow> [] | Some imgs \<Rightarrow> imgs) = 0"
      "b_status (final_row env imgs b0) = ''completed'' \<longleftrightarrow>
          (case b_completed_images (final_row env imgs b0) of
                       None \<Rightarrow> [] | Some imgs \<Rightarrow> imgs) \<noteq> []"
      "b_status (final_row env imgs b0) = ''failed'' \<longrightarrow>
          b_error_message (final_row env imgs b0) \<noteq> None"
      using fin(2) b0 by (simp_all add: final_row_def)
    ultimately show ?thesis unfolding items_def by blast
  qed
qed

theorem approve_edit_batch_outcome_witness:
  "find (\<lambda>r. et_id r = ''t1'') (edit_tests (demo_world [demo_image ''i0'' 0, demo_image ''i1'' 1]))
      = Some demo_test
   \<and> select_other_images (demo_world [demo_image ''i0'' 0, demo_image ''i1'' 1]) demo_test \<noteq> []
   \<and> new_batch_id (demo_env demo_template (\<lambda>k. PostNoId) (\<lambda>k a. HistoryData []))
        \<notin> set (map b_id (comfyui_batches (demo_world [demo_image ''i0'' 0, demo_image ''i1'' 1])))
   \<and> (\<exists>b. filter (\<lambda>b. b_id b = ''b1'')
                (comfyui_batches (fst (approve_edit
                   (demo_env demo_template (\<lambda>k. PostNoId) (\<lambda>k a. HistoryData []))
                   (demo_world [demo_image ''i0'' 0, demo_image ''i1'' 1]) ''t1'' ''ok''))) = [b]
           \<and> length (case b_completed_images b of None \<Rightarrow> [] | Some imgs \<Rightarrow> imgs) \<le> 1
           \<and> (b_status b = ''failed'' \<longleftrightarrow>
                length (case b_completed_images b of None \<Rightarrow> [] | Some imgs \<Rightarrow> imgs) = 0)
           \<and> (b_status b = ''completed'' \<longleftrightarrow>
                (case b_completed_images b of None \<Rightarrow> [] | Some imgs \<Rightarrow> imgs) \<noteq> [])
           \<and> (b_status b = ''failed'' \<longrightarrow> b_error_message b \<noteq> None))"
proof -
  note h1 = demo_find[of "[demo_image ''i0'' 0, demo_image ''i1'' 1]"]
  have h2: "select_other_images (demo_world [demo_image ''i0'' 0, demo_image ''i1'' 1]) demo_test
      \<noteq> []"
    by (simp add: demo_siblings)
  have h3: "new_batch_id (demo_env demo_template (\<lambda>k. PostNoId) (\<lambda>k a. HistoryData []))
        \<notin> set (map b_id (comfyui_batches (demo_world [demo_image ''i0'' 0, demo_image ''i1'' 1])))"
    by (simp add: demo_world_def)
  have b: "new_batch_id (demo_env demo_template (\<lambda>k. PostNoId) (\<lambda>k a. HistoryData [])) = ''b1''"
    by (simp add: demo_env_def)
  from approve_edit_batch_outcome[OF h1 h2 h3, of "''ok''"]
  show ?thesis using h1 h2 h3 unfolding b demo_siblings by simp
qed

section \<open>Claims about the completion poller\<close>




section \<open>Claims about job-graph instantiation\<close>

text \<open>
  C5. Instantiation is side-effect-isolated. Each instantiation works on a deep copy made of
  fresh objects: every object that existed before is left as it was, so the template
  serialises to the same document before and after every instantiation, and after a second
  instantiation of the same template with other bindings the first graph serialises to the
  same document as before and its five bound slots still hold the values of the first
  instantiation.
\<close>

theorem instantiate_isolated:
  assumes "instantiate h0 template mf1 pf1 i1 seed1 bid1 = Inr (h1, g1)"
    and "instantiate h1 template mf2 pf2 i2 seed2 bid2 = Inr (h2, g2)"
  shows "(\<exists>jt. json_dumps h0 template = Inr jt \<and> json_dumps h1 template = Inr jt
              \<and> json_dumps h2 template = Inr jt)
       \<and> (\<exists>j1. json_dumps h1 g1 = Inr j1 \<and> json_dumps h2 g1 = Inr j1)
       \<and> bound_values h1 g1 =
           [Inr (VAtom (AStr ''qwen_image_edit_2509_fp8_e4m3fn.safetensors'')),
            Inr (VAtom (AStr mf1)),
            Inr (VAtom (AStr (pf1 @ ''/'' @ pose_name i1 @ ''.jpg''))),
            Inr (VAtom (AInt seed1)),
            Inr (VAtom (AStr (bid1 @ ''_'' @ pose_name i1)))]
       \<and> bound_values h2 g1 = bound_values h1 g1
       \<and> take (length h0) h1 = h0 \<and> take (length h1) h2 = h1"
proof -
  from instantiate_result[OF assms(1)] obtain jt j1 where
    d0: "json_dumps h0 template = Inr jt" and ji1: "jinstantiate jt mf1 pf1 i1 seed1 bid1 = Inr j1"
    and l1: "length h0 \<le> length h1" and f1: "\<forall>a < length h0. h1 ! a = h0 ! a"
    and r1: "rep h1 (length h0) (length h1) g1 j1" by blast
  from instantiate_result[OF assms(2)] obtain jt' j2 where
    d1': "json_dumps h1 template = Inr jt'"
    and l2: "length h1 \<le> length h2" and f2: "\<forall>a < length h1. h2 ! a = h1 ! a"
    and r2: "rep h2 (length h1) (length h2) g2 j2" by blast
  have d1: "json_dumps h1 template = Inr jt"
    using json_dumps_frame[OF d0 l1] f1 by simp
  have d2: "json_dumps h2 template = Inr jt"
    using json_dumps_frame[OF d1 l2] f2 by simp
  have r1': "rep h2 (length h0) (length h1) g1 j1"
    using r1 by (rule rep_agree) (use l2 f2 in auto)
  have g1: "json_dumps h1 g1 = Inr j1" using rep_json_dumps[OF r1] by simp
  have g2: "json_dumps h2 g1 = Inr j1" using rep_json_dumps[OF r1' l2] .
  have b1: "bound_values h1 g1 =
           [Inr (VAtom (AStr ''qwen_image_edit_2509_fp8_e4m3fn.safetensors'')),
            Inr (VAtom (AStr mf1)),
            Inr (VAtom (AStr (pf1 @ ''/'' @ pose_name i1 @ ''.jpg''))),
            Inr (VAtom (AInt seed1)),
            Inr (VAtom (AStr (bid1 @ ''_'' @ pose_name i1)))]"
    by (rule rep_bound_values[OF r1 ji1])
  have b2: "bound_values h2 g1 = bound_values h1 g1"
    unfolding b1 by (rule rep_bound_values[OF r1' ji1])
  have t1: "take (length h0) h1 = h0"
    using l1 f1 by (simp add: list_eq_iff_nth_eq)
  have t2: "take (length h1) h2 = h1"
    using l2 f2 by (simp add: list_eq_iff_nth_eq)
  show ?thesis using d0 d1 d2 g1 g2 b1 b2 t1 t2 by blast
qed

theorem instantiate_isolated_witness:
  "(case loads [] demo_template of
      (h0, template) \<Rightarrow>
        (case instantiate h0 template ''model_0a1b2c3d.jpg'' ''pose_4e5f6a7b'' 0 1000000000000 ''b1'' of
           Inl e \<Rightarrow> False
         | Inr (h1, g1) \<Rightarrow>
             (case instantiate h1 template ''model_0a1b2c3d.jpg'' ''pose_4e5f6a7b'' 1
                     1000000000001 ''b1'' of
                Inl e \<Rightarrow> False
              | Inr (h2, g2) \<Rightarrow>
                  json_dumps h2 template = Inr demo_template
                  \<and> json_dumps h2 g1 = json_dumps h1 g1
                  \<and> bound_values h2 g1 =
                      [Inr (VAtom (AStr ''qwen_image_edit_2509_fp8_e4m3fn.safetensors'')),
                       Inr (VAtom (AStr ''model_0a1b2c3d.jpg'')),
                       Inr (VAtom (AStr (''pose_4e5f6a7b'' @ ''/'' @ pose_name 0 @ ''.jpg''))),
                       Inr (VAtom (AInt 1000000000000)),
                       Inr (VAtom (AStr (''b1'' @ ''_'' @ pose_name 0)))])))"
proof -
  obtain h0 t where l: "loads [] demo_template = (h0, t)" by (cases "loads [] demo_template")
  have d0: "json_dumps h0 t = Inr demo_template" by (rule loads_json_dumps[OF l])
  obtain j1 where "jinstantiate demo_template ''model_0a1b2c3d.jpg'' ''pose_4e5f6a7b'' 0
      1000000000000 ''b1'' = Inr j1"
    using demo_template_instantiates by blast
  with instantiate_refines[OF d0] obtain h1 g1 where
    i1: "instantiate h0 t ''model_0a1b2c3d.jpg'' ''pose_4e5f6a7b'' 0 1000000000000 ''b1''
           = Inr (h1, g1)"
    by blast
  have d1: "json_dumps h1 t = Inr demo_template"
  proof -
    from instantiate_result[OF i1] obtain
      "length h0 \<le> length h1" "\<forall>a < length h0. h1 ! a = h0 ! a" by blast
    then show ?thesis using json_dumps_frame[OF d0] by simp
  qed
  obtain j2 where "jinstantiate demo_template ''model_0a1b2c3d.jpg'' ''pose_4e5f6a7b'' 1
      1000000000001 ''b1'' = Inr j2"
    using demo_template_instantiates by blast
  with instantiate_refines[OF d1] obtain h2 g2 where
    i2: "instantiate h1 t ''model_0a1b2c3d.jpg'' ''pose_4e5f6a7b'' 1 1000000000001 ''b1''
           = Inr (h2, g2)"
    by blast
  from instantiate_isolated[OF i1 i2] d0
  have "json_dumps h2 t = Inr demo_template \<and> json_dumps h2 g1 = json_dumps h1 g1
     \<and> bound_values h2 g1 =
         [Inr (VAtom (AStr ''qwen_image_edit_2509_fp8_e4m3fn.safetensors'')),
          Inr (VAtom (AStr ''model_0a1b2c3d.jpg'')),
          Inr (VAtom (AStr (''pose_4e5f6a7b'' @ ''/'' @ pose_name 0 @ ''.jpg''))),
          Inr (VAtom (AInt 1000000000000)),
          Inr (VAtom (AStr (''b1'' @ ''_'' @ pose_name 0)))]"
    by auto
  then show ?thesis unfolding l prod.case i1 i2 sum.case by blast
qed

section \<open>Claims about the submission phase\<close>

text \<open>
  C2, as stated, fails on both counts. When the submission call of the first of two items is
  answered with an HTTP error, \<^verbatim>\<open>raise_for_status\<close> raises inside the loop, the second item is
  never submitted, and the batch is marked failed. When the first of two submissions is
  answered without a job identifier, the item is skipped, but nothing is printed for it: the
  only line for an item is that of the second.
\<close>

theorem submission_failure_aborts_counterexample:
  "snd (approve_edit env_post_fails world_three ''t1'' ''ok'')
     = Inr (JObj [(''success'', JAtom (ABool False)), (''error'', jstr ''503 Server Error'')], 500)
   \<and> length (select_other_images world_three demo_test) = 2
   \<and> length (posted (fst (approve_edit env_post_fails world_three ''t1'' ''ok''))) = 1
   \<and> map b_status (comfyui_batches (fst (approve_edit env_post_fails world_three ''t1'' ''ok'')))
       = [''failed'']
   \<and> post_prompt env_no_id 0 = PostNoId
   \<and> snd (trigger_workflows env_no_id ''b1'' ''model_0a1b2c3d.jpg'' ''pose_4e5f6a7b''
             [demo_image ''i1'' 1, demo_image ''i2'' 2] (demo_world [])) = Inr [''p2'']
   \<and> stdout (fst (trigger_workflows env_no_id ''b1'' ''model_0a1b2c3d.jpg'' ''pose_4e5f6a7b''
             [demo_image ''i1'' 1, demo_image ''i2'' 2] (demo_world [])))
       = [LogTriggering 2, LogPoseTriggered 2 2 ''p2'', LogAllTriggered [''p2'']]"
  by code_simp

text \<open>
  C2, amended. Take a template that loads and into which the slots can be bound. If no
  submission call raises, the submission phase returns: every item has been posted, the
  recorded identifiers are exactly those that were returned, in order, and the only lines
  printed for items are those of the items that got an identifier; an item answered without
  identifier is skipped silently and all later items are still submitted. A submission call
  that raises (transport error, HTTP error status, undecodable answer) is not isolated: when
  position \<open>k\<close> is the first whose call raises, with exception \<open>e\<close>, the phase raises \<open>e\<close> after
  posting the graphs of positions 0 to \<open>k\<close>, and nothing after position \<open>k\<close> is posted. In the
  whole approval action the batch then ends failed, the handler prints the exception, records
  its text in the batch row and answers 500 with it; the exception is \<open>e\<close> unless the run failed
  before the submission phase, in which case nothing was posted at all.
\<close>

theorem submission_failure_policy:
  "(load_template env = Inr document
      \<and> (\<forall>j < length items. \<exists>g. jinstantiate document mf pf j (randint env j) batch_id = Inr g)
      \<and> (\<forall>j < length items. \<forall>e. post_prompt env j \<noteq> PostRaises e) \<longrightarrow>
      snd (trigger_workflows env batch_id mf pf items w0)
        = Inr (List.map_filter (\<lambda>k. job_id (post_prompt env k)) [0..<length items])
      \<and> length (posted (fst (trigger_workflows env batch_id mf pf items w0)))
          = length (posted w0) + length items
      \<and> stdout (fst (trigger_workflows env batch_id mf pf items w0))
          = stdout w0 @ [LogTriggering (length items)]
            @ List.map_filter
                (\<lambda>k. map_option (LogPoseTriggered (k + 1) (length items)) (job_id (post_prompt env k)))
                [0..<length items]
            @ [LogAllTriggered
                 (List.map_filter (\<lambda>k. job_id (post_prompt env k)) [0..<length items])])
   \<and> (load_template env = Inr document \<and> k < length items
        \<and> (\<forall>j \<le> k. \<exists>g. jinstantiate document mf pf j (randint env j) batch_id = Inr g)
        \<and> (\<forall>j < k. \<forall>e'. post_prompt env j \<noteq> PostRaises e')
        \<and> post_prompt env k = PostRaises e \<longrightarrow>
      snd (trigger_workflows env batch_id mf pf items w0) = Inl e
      \<and> length (posted (fst (trigger_workflows env batch_id mf pf items w0)))
          = length (posted w0) + k + 1)
   \<and> (find (\<lambda>r. et_id r = test_id) (edit_tests w) = Some test
        \<and> select_other_images w test \<noteq> []
        \<and> new_batch_id env \<notin> set (map b_id (comfyui_batches w))
        \<and> load_template env = Inr document
        \<and> k < length (select_other_images w test)
        \<and> (\<forall>mf pf. \<forall>j \<le> k.
              \<exists>g. jinstantiate document mf pf j (randint env j) (new_batch_id env) = Inr g)
        \<and> (\<forall>j < k. \<forall>e'. post_prompt env j \<noteq> PostRaises e')
        \<and> post_prompt env k = PostRaises e \<longrightarrow>
      (\<exists>b e'. filter (\<lambda>b. b_id b = new_batch_id env)
                  (comfyui_batches (fst (approve_edit env w test_id notes))) = [b]
             \<and> b_status b = ''failed'' \<and> b_error_message b = Some (exn_str e')
             \<and> LogBatchError e' \<in> set (stdout (fst (approve_edit env w test_id notes)))
             \<and> snd (approve_edit env w test_id notes)
                 = Inr (JObj [(''success'', JAtom (ABool False)),
                              (''error'', jstr (exn_str e'))], 500)
             \<and> (posted (fst (approve_edit env w test_id notes)) = posted w
                  \<or> e' = e
                    \<and> length (posted (fst (approve_edit env w test_id notes)))
                        = length (posted w) + k + 1)))"
proof (intro conjI impI)
  let ?ids = "List.map_filter (\<lambda>k. job_id (post_prompt env k)) [0..<length items]"
  let ?tr = "trigger_workflows env batch_id mf pf items w0"
  assume h: "load_template env = Inr document
      \<and> (\<forall>j < length items. \<exists>g. jinstantiate document mf pf j (randint env j) batch_id = Inr g)
      \<and> (\<forall>j < length items. \<forall>e. post_prompt env j \<noteq> PostRaises e)"
  then have lt: "load_template env = Inr document" by simp
  from h trigger_workflows_returns[OF lt, of items mf pf batch_id w0]
  obtain prompt_ids where a: "snd ?tr = Inr prompt_ids" by blast
  obtain w1 r1 where s: "jsubmit_all env batch_id mf pf document (length items) 0 items []
             (say w0 (LogTriggering (length items))) = (w1, r1)"
    by (cases "jsubmit_all env batch_id mf pf document (length items) 0 items []
             (say w0 (LogTriggering (length items)))")
  from a have r1: "r1 = Inr prompt_ids"
    by (cases r1) (simp_all add: trigger_workflows_doc[OF lt] s)
  then have t: "fst ?tr = say w1 (LogAllTriggered prompt_ids)"
    by (simp add: trigger_workflows_doc[OF lt] s)
  from jsubmit_all_posted[OF s] r1 obtain new where n:
    "posted w1 = posted (say w0 (LogTriggering (length items))) @ new"
    "length new = length items"
    "prompt_ids = [] @ List.map_filter (\<lambda>k. job_id (post_prompt env k)) [0..<0 + length items]"
    "stdout w1 = stdout (say w0 (LogTriggering (length items))) @ List.map_filter
                 (\<lambda>k. map_option (LogPoseTriggered (k + 1) (length items)) (job_id (post_prompt env k)))
                 [0..<0 + length items]"
    by blast
  from n(3) have ids: "prompt_ids = ?ids" by simp
  show "snd ?tr = Inr ?ids" using a ids by simp
  show "length (posted (fst ?tr)) = length (posted w0) + length items"
    unfolding t using n(1,2) by (simp add: say_def)
  show "stdout (fst ?tr)
          = stdout w0 @ [LogTriggering (length items)]
            @ List.map_filter
                (\<lambda>k. map_option (LogPoseTriggered (k + 1) (length items)) (job_id (post_prompt env k)))
                [0..<length items]
            @ [LogAllTriggered ?ids]"
    unfolding t ids[symmetric] using n(4) by (simp add: say_def)
next
  assume h: "load_template env = Inr document \<and> k < length items
        \<and> (\<forall>j \<le> k. \<exists>g. jinstantiate document mf pf j (randint env j) batch_id = Inr g)
        \<and> (\<forall>j < k. \<forall>e'. post_prompt env j \<noteq> PostRaises e')
        \<and> post_prompt env k = PostRaises e"
  then have h1: "load_template env = Inr document" and h2: "k < length items"
    and h3: "\<forall>j \<le> k. \<exists>g. jinstantiate document mf pf j (randint env j) batch_id = Inr g"
    and h4: "\<forall>j < k. \<forall>e'. post_prompt env j \<noteq> PostRaises e'"
    and h5: "post_prompt env k = PostRaises e" by simp_all
  note r = trigger_workflows_first_raise[OF h1 h2 h3 h4 h5, of w0]
  show "snd (trigger_workflows env batch_id mf pf items w0) = Inl e" by (rule r[THEN conjunct1])
  show "length (posted (fst (trigger_workflows env batch_id mf pf items w0)))
          = length (posted w0) + k + 1" by (rule r[THEN conjunct2])
next
  assume h: "find (\<lambda>r. et_id r = test_id) (edit_tests w) = Some test
        \<and> select_other_images w test \<noteq> []
        \<and> new_batch_id env \<notin> set (map b_id (comfyui_batches w))
        \<and> load_template env = Inr document
        \<and> k < length (select_other_images w test)
        \<and> (\<forall>mf pf. \<forall>j \<le> k.
              \<exists>g. jinstantiate document mf pf j (randint env j) (new_batch_id env) = Inr g)
        \<and> (\<forall>j < k. \<forall>e'. post_prompt env j \<noteq> PostRaises e')
        \<and> post_prompt env k = PostRaises e"
  let ?items = "select_other_images w test"
  let ?final = "fst (approve_edit env w test_id notes)"
  from h have h1: "find (\<lambda>r. et_id r = test_id) (edit_tests w) = Some test"
    and h2: "?items \<noteq> []" and h3: "new_batch_id env \<notin> set (map b_id (comfyui_batches w))"
    and lt: "load_template env = Inr document"
    and h4: "k < length ?items"
    and hb: "\<forall>mf pf. \<forall>j \<le> k.
              \<exists>g. jinstantiate document mf pf j (randint env j) (new_batch_id env) = Inr g"
    and hn: "\<forall>j < k. \<forall>e'. post_prompt env j \<noteq> PostRaises e'"
    and h5: "post_prompt env k = PostRaises e" by simp_all
  from approve_edit_handler[OF h1 h2 h3] obtain w2 t w3 r where
    p2: "posted w2 = posted w"
    and rb: "run_batch env w2 t ?items (new_batch_id env) = (w3, r)"
    and p3: "posted ?final = posted w3"
    and ex: "\<And>e. r = Inl e \<Longrightarrow>
          (\<exists>b. filter (\<lambda>b. b_id b = new_batch_id env) (comfyui_batches ?final) = [b]
             \<and> b_status b = ''failed'' \<and> b_error_message b = Some (exn_str e))
          \<and> LogBatchError e \<in> set (stdout ?final)
          \<and> snd (approve_edit env w test_id notes)
               = Inr (JObj [(''success'', JAtom (ABool False)), (''error'', jstr (exn_str e))], 500)"
    by blast
  have "\<exists>e'. r = Inl e'
      \<and> (posted w3 = posted w \<or> e' = e \<and> length (posted w3) = length (posted w) + k + 1)"
  proof -
    from run_batch_trigger[OF rb] show ?thesis
    proof (elim disjE exE conjE)
      fix e0 assume "r = Inl e0" "posted w3 = posted w2"
      then show ?thesis using p2 by simp
    next
      fix mf pf w0 w1 r1
      assume q: "posted w0 = posted w2"
        "trigger_workflows env (new_batch_id env) mf pf ?items w0 = (w1, r1)"
        "\<forall>e. r1 = Inl e \<longrightarrow> r = Inl e \<and> w3 = w1"
      from hb have hb': "\<forall>j \<le> k.
          \<exists>g. jinstantiate document mf pf j (randint env j) (new_batch_id env) = Inr g"
        by blast
      from trigger_workflows_first_raise[OF lt h4 hb' hn h5, of w0] q(2)
      have "r1 = Inl e" "length (posted w1) = length (posted w0) + k + 1" by simp_all
      then show ?thesis using q(1,3) p2 by simp
    qed
  qed
  then obtain e' where r: "r = Inl e'"
    and l: "posted w3 = posted w \<or> e' = e \<and> length (posted w3) = length (posted w) + k + 1"
    by blast
  from ex[OF r] obtain b where
    "filter (\<lambda>b. b_id b = new_batch_id env) (comfyui_batches ?final) = [b]
       \<and> b_status b = ''failed'' \<and> b_error_message b = Some (exn_str e')
       \<and> LogBatchError e' \<in> set (stdout ?final)
       \<and> snd (approve_edit env w test_id notes)
            = Inr (JObj [(''success'', JAtom (ABool False)), (''error'', jstr (exn_str e'))], 500)
       \<and> (posted ?final = posted w
            \<or> e' = e \<and> length (posted ?final) = length (posted w) + k + 1)"
    using l unfolding p3 by blast
  then show "\<exists>b e'. filter (\<lambda>b. b_id b = new_batch_id env) (comfyui_batches ?final) = [b]
             \<and> b_status b = ''failed'' \<and> b_error_message b = Some (exn_str e')
             \<and> LogBatchError e' \<in> set (stdout ?final)
             \<and> snd (approve_edit env w test_id notes)
                 = Inr (JObj [(''success'', JAtom (ABool False)),
                              (''error'', jstr (exn_str e'))], 500)
             \<and> (posted ?final = posted w
                  \<or> e' = e \<and> length (posted ?final) = length (posted w) + k + 1)"
    by blast
qed

theorem submission_failure_policy_witness:
  "load_template env_no_id = Inr demo_template
   \<and> (\<forall>mf pf j. \<exists>g. jinstantiate demo_template mf pf j (randint env_no_id j) ''b1'' = Inr g)
   \<and> (\<forall>j e. post_prompt env_no_id j \<noteq> PostRaises e)
   \<and> snd (trigger_workflows env_no_id ''b1'' ''model_0a1b2c3d.jpg'' ''pose_4e5f6a7b''
          [demo_image ''i1'' 1, demo_image ''i2'' 2] (demo_world [])) = Inr [''p2'']
   \<and> length (posted (fst (trigger_workflows env_no_id ''b1'' ''model_0a1b2c3d.jpg''
          ''pose_4e5f6a7b'' [demo_image ''i1'' 1, demo_image ''i2'' 2] (demo_world [])))) = 2
   \<and> load_template env_post_fails = Inr demo_template
   \<and> (\<forall>mf pf j. \<exists>g. jinstantiate demo_template mf pf j (randint env_post_fails j)
                       (new_batch_id env_post_fails) = Inr g)
   \<and> post_prompt env_post_fails 0 = PostRaises (ExternalError ''503 Server Error'')
   \<and> snd (trigger_workflows env_post_fails ''b1'' ''model_0a1b2c3d.jpg'' ''pose_4e5f6a7b''
          [demo_image ''i1'' 1, demo_image ''i2'' 2] (demo_world []))
       = Inl (ExternalError ''503 Server Error'')
   \<and> length (posted (fst (trigger_workflows env_post_fails ''b1'' ''model_0a1b2c3d.jpg''
          ''pose_4e5f6a7b'' [demo_image ''i1'' 1, demo_image ''i2'' 2] (demo_world [])))) = 1
   \<and> find (\<lambda>r. et_id r = ''t1'') (edit_tests world_three) = Some demo_test
   \<and> select_other_images world_three demo_test \<noteq> []
   \<and> new_batch_id env_post_fails \<notin> set (map b_id (comfyui_batches world_three))
   \<and> 0 < length (select_other_images world_three demo_test)
   \<and> (\<exists>b e'. filter (\<lambda>b. b_id b = new_batch_id env_post_fails)
                  (comfyui_batches (fst (approve_edit env_post_fails world_three ''t1'' ''ok'')))
                = [b]
             \<and> b_status b = ''failed'' \<and> b_error_message b = Some (exn_str e')
             \<and> LogBatchError e'
                  \<in> set (stdout (fst (approve_edit env_post_fails world_three ''t1'' ''ok'')))
             \<and> snd (approve_edit env_post_fails world_three ''t1'' ''ok'')
                 = Inr (JObj [(''success'', JAtom (ABool False)),
                              (''error'', jstr (exn_str e'))], 500)
             \<and> (posted (fst (approve_edit env_post_fails world_three ''t1'' ''ok''))
                   = posted world_three
                  \<or> e' = ExternalError ''503 Server Error''
                    \<and> length (posted (fst (approve_edit env_post_fails world_three ''t1'' ''ok'')))
                        = length (posted world_three) + 0 + 1))"
proof -
  let ?items = "[demo_image ''i1'' 1, demo_image ''i2'' 2]"
  let ?e = "ExternalError ''503 Server Error''"
  have a1: "load_template env_no_id = Inr demo_template"
    by (simp add: env_no_id_def demo_env_def)
  have a2: "\<forall>mf pf j. \<exists>g. jinstantiate demo_template mf pf j (randint env_no_id j) ''b1'' = Inr g"
    using demo_template_instantiates by blast
  have a3: "\<forall>j e. post_prompt env_no_id j \<noteq> PostRaises e"
    by (simp add: env_no_id_def demo_env_def)
  have a2': "\<forall>j < length ?items. \<exists>g. jinstantiate demo_template ''model_0a1b2c3d.jpg''
       ''pose_4e5f6a7b'' j (randint env_no_id j) ''b1'' = Inr g"
    using a2 by blast
  have a3': "\<forall>j < length ?items. \<forall>e. post_prompt env_no_id j \<noteq> PostRaises e"
    using a3 by blast
  have p0: "posted (demo_world []) = []" "posted world_three = []"
    by (simp_all add: demo_world_def world_three_def)
  note t1 = submission_failure_policy[where env = env_no_id and document = demo_template
      and batch_id = "''b1''" and mf = "''model_0a1b2c3d.jpg''" and pf = "''pose_4e5f6a7b''"
      and items = ?items and ?w0.0 = "demo_world []", THEN conjunct1, THEN mp,
      OF conjI[OF a1 conjI[OF a2' a3']]]
  have v: "List.map_filter (\<lambda>k. job_id (post_prompt env_no_id k)) [0..<length ?items] = [''p2'']"
    by code_simp
  have c1: "snd (trigger_workflows env_no_id ''b1'' ''model_0a1b2c3d.jpg'' ''pose_4e5f6a7b''
          ?items (demo_world [])) = Inr [''p2'']"
    using t1[THEN conjunct1] unfolding v .
  have c1b: "length (posted (fst (trigger_workflows env_no_id ''b1'' ''model_0a1b2c3d.jpg''
          ''pose_4e5f6a7b'' ?items (demo_world [])))) = 2"
    using t1[THEN conjunct2, THEN conjunct1] p0 by simp
  have b1: "load_template env_post_fails = Inr demo_template"
    by (simp add: env_post_fails_def demo_env_def)
  have b2: "\<forall>mf pf j. \<exists>g. jinstantiate demo_template mf pf j (randint env_post_fails j)
                       (new_batch_id env_post_fails) = Inr g"
    using demo_template_instantiates by blast
  have bid: "new_batch_id env_post_fails = ''b1''"
    by (simp add: env_post_fails_def demo_env_def)
  have b3: "post_prompt env_post_fails 0 = PostRaises ?e"
    by (simp add: env_post_fails_def demo_env_def)
  have b2': "\<forall>j \<le> 0. \<exists>g. jinstantiate demo_template ''model_0a1b2c3d.jpg''
       ''pose_4e5f6a7b'' j (randint env_post_fails j) ''b1'' = Inr g"
    using demo_template_instantiates by blast
  have b4: "\<forall>j < (0 :: nat). \<forall>e'. post_prompt env_post_fails j \<noteq> PostRaises e'" by simp
  have b5: "(0 :: nat) < length ?items" by simp
  note t2 = submission_failure_policy[where env = env_post_fails and document = demo_template
      and batch_id = "''b1''" and mf = "''model_0a1b2c3d.jpg''" and pf = "''pose_4e5f6a7b''"
      and items = ?items and ?w0.0 = "demo_world []" and k = 0 and e = ?e,
      THEN conjunct2, THEN conjunct1, THEN mp,
      OF conjI[OF b1 conjI[OF b5 conjI[OF b2' conjI[OF b4 b3]]]]]
  have c2: "snd (trigger_workflows env_post_fails ''b1'' ''model_0a1b2c3d.jpg'' ''pose_4e5f6a7b''
          ?items (demo_world [])) = Inl ?e"
    by (rule t2[THEN conjunct1])
  have c2b: "length (posted (fst (trigger_workflows env_post_fails ''b1'' ''model_0a1b2c3d.jpg''
          ''pose_4e5f6a7b'' ?items (demo_world [])))) = 1"
    using t2[THEN conjunct2] p0 by simp
  have d1: "find (\<lambda>r. et_id r = ''t1'') (edit_tests world_three) = Some demo_test"
    by (rule demo_find3)
  have d2: "select_other_images world_three demo_test \<noteq> []"
    by (simp add: demo_siblings3)
  have d3: "new_batch_id env_post_fails \<notin> set (map b_id (comfyui_batches world_three))"
    unfolding env_post_fails_def by (rule demo_fresh3)
  have d4: "0 < length (select_other_images world_three demo_test)"
    by (simp add: demo_siblings3)
  have d5: "\<forall>mf pf. \<forall>j \<le> 0. \<exists>g. jinstantiate demo_template mf pf j (randint env_post_fails j)
                       (new_batch_id env_post_fails) = Inr g"
    using b2 by blast
  note t3 = submission_failure_policy[where env = env_post_fails and document = demo_template
      and w = world_three and test_id = "''t1''" and test = demo_test and k = 0 and e = ?e,
      THEN conjunct2, THEN conjunct2, THEN mp,
      OF conjI[OF d1 conjI[OF d2 conjI[OF d3 conjI[OF b1 conjI[OF d4 conjI[OF d5
           conjI[OF b4 b3]]]]]]]]
  show ?thesis
    by (rule conjI[OF a1 conjI[OF a2 conjI[OF a3 conjI[OF c1 conjI[OF c1b conjI[OF b1
          conjI[OF b2 conjI[OF b3 conjI[OF c2 conjI[OF c2b conjI[OF d1 conjI[OF d2
          conjI[OF d3 conjI[OF d4 t3]]]]]]]]]]]]]])
qed

text \<open>
  C4, as stated, fails: a template whose five nodes have an empty \<^verbatim>\<open>inputs\<close> mapping has none
  of the bound slot keys, yet the bindings raise nothing; each assignment creates its slot
  and the job graph is submitted.
\<close>

theorem missing_slot_counterexample:
  "snd (trigger_workflows env_bare ''b1'' ''model_0a1b2c3d.jpg'' ''pose_4e5f6a7b''
      [demo_image ''i1'' 1] (demo_world [])) = Inr [''p1'']
   \<and> posted (fst (trigger_workflows env_bare ''b1'' ''model_0a1b2c3d.jpg'' ''pose_4e5f6a7b''
      [demo_image ''i1'' 1] (demo_world [])))
     = [JObj [(''prompt'', JObj
         [(''67'', JObj [(''inputs'', JObj [(''unet_name'',
               JAtom (AStr ''qwen_image_edit_2509_fp8_e4m3fn.safetensors''))])]),
          (''74'', JObj [(''inputs'', JObj [(''seed'', JAtom (AInt 1000000000000))])]),
          (''78'', JObj [(''inputs'', JObj [(''image'', JAtom (AStr ''model_0a1b2c3d.jpg''))])]),
          (''94'', JObj [(''inputs'', JObj [(''filename_prefix'', JAtom (AStr ''b1_pose1''))])]),
          (''179'', JObj [(''inputs'', JObj [(''image'',
               JAtom (AStr ''pose_4e5f6a7b/pose1.jpg''))])])])]]"
  by code_simp

text \<open>
  C4, amended. Binding the parameter slots raises when the node of a bound slot, or the
  \<^verbatim>\<open>inputs\<close> mapping of that node, cannot be looked up in the template (a \<^verbatim>\<open>KeyError\<close> for a
  missing key); a slot name missing under an existing \<^verbatim>\<open>inputs\<close> mapping is created. That
  failure is fatal to the whole batch: no job graph is posted, and the batch is marked failed
  with the text of the exception.
\<close>

theorem missing_node_fails_batch:
  assumes "find (\<lambda>r. et_id r = test_id) (edit_tests w) = Some test"
    and "select_other_images w test \<noteq> []"
    and "new_batch_id env \<notin> set (map b_id (comfyui_batches w))"
    and "load_template env = Inr document"
    and "key \<in> set [''67'', ''78'', ''179'', ''74'', ''94'']"
    and "jget document key = Inl e1
         \<or> (\<exists>nd e2. jget document key = Inr nd \<and> jget nd ''inputs'' = Inl e2)"
  shows "posted (fst (approve_edit env w test_id notes)) = posted w
     \<and> (\<exists>b e. filter (\<lambda>b. b_id b = new_batch_id env)
                  (comfyui_batches (fst (approve_edit env w test_id notes))) = [b]
             \<and> b_status b = ''failed'' \<and> b_error_message b = Some (exn_str e)
             \<and> snd (approve_edit env w test_id notes)
                 = Inr (JObj [(''success'', JAtom (ABool False)),
                              (''error'', jstr (exn_str e))], 500))"
proof -
  let ?items = "select_other_images w test"
  let ?final = "fst (approve_edit env w test_id notes)"
  from approve_edit_handler[OF assms(1,2,3)] obtain w2 t w3 r where
    p2: "posted w2 = posted w"
    and rb: "run_batch env w2 t ?items (new_batch_id env) = (w3, r)"
    and p3: "posted ?final = posted w3"
    and ex: "\<And>e. r = Inl e \<Longrightarrow>
          (\<exists>b. filter (\<lambda>b. b_id b = new_batch_id env) (comfyui_batches ?final) = [b]
             \<and> b_status b = ''failed'' \<and> b_error_message b = Some (exn_str e))
          \<and> LogBatchError e \<in> set (stdout ?final)
          \<and> snd (approve_edit env w test_id notes)
               = Inr (JObj [(''success'', JAtom (ABool False)), (''error'', jstr (exn_str e))], 500)"
    by blast
  have "\<exists>e'. r = Inl e' \<and> posted w3 = posted w"
  proof -
    from run_batch_trigger[OF rb] show ?thesis
    proof (elim disjE exE conjE)
      fix e0 assume "r = Inl e0" "posted w3 = posted w2"
      then show ?thesis using p2 by simp
    next
      fix mf pf w0 w1 r1
      assume q: "posted w0 = posted w2"
        "trigger_workflows env (new_batch_id env) mf pf ?items w0 = (w1, r1)"
        "\<forall>e. r1 = Inl e \<longrightarrow> r = Inl e \<and> w3 = w1"
      from trigger_workflows_unbindable[OF assms(4) assms(2) assms(5,6),
          of "new_batch_id env" mf pf w0] q(2)
      obtain e' where "r1 = Inl e'" "posted w1 = posted w0" by auto
      then show ?thesis using q(1,3) p2 by auto
    qed
  qed
  then obtain e' where r: "r = Inl e'" and l: "posted w3 = posted w" by blast
  show ?thesis using ex[OF r] l p3 by auto
qed

theorem missing_node_fails_batch_witness:
  "find (\<lambda>r. et_id r = ''t1'') (edit_tests world_three) = Some demo_test
   \<and> select_other_images world_three demo_test \<noteq> []
   \<and> new_batch_id env_empty_template \<notin> set (map b_id (comfyui_batches world_three))
   \<and> load_template env_empty_template = Inr (JObj [])
   \<and> ''179'' \<in> set [''67'', ''78'', ''179'', ''74'', ''94'']
   \<and> jget (JObj []) ''179'' = Inl (KeyError ''179'')
   \<and> posted (fst (approve_edit env_empty_template world_three ''t1'' ''ok'')) = []
   \<and> map b_status (comfyui_batches (fst (approve_edit env_empty_template world_three ''t1'' ''ok'')))
        = [''failed'']
   \<and> map b_error_message
        (comfyui_batches (fst (approve_edit env_empty_template world_three ''t1'' ''ok'')))
        = [Some (quoted ''67'')]"
proof -
  have h1: "find (\<lambda>r. et_id r = ''t1'') (edit_tests world_three) = Some demo_test"
    by (rule demo_find3)
  have h2: "select_other_images world_three demo_test \<noteq> []" by (simp add: demo_siblings3)
  have h3: "new_batch_id env_empty_template \<notin> set (map b_id (comfyui_batches world_three))"
    unfolding env_empty_template_def by (rule demo_fresh3)
  have h4: "load_template env_empty_template = Inr (JObj [])"
    by (simp add: env_empty_template_def demo_env_def)
  have h5: "''179'' \<in> set [''67'', ''78'', ''179'', ''74'', ''94'']" by simp
  have h6: "jget (JObj []) ''179'' = Inl (KeyError ''179'')" by simp
  then have h6': "jget (JObj []) ''179'' = Inl (KeyError ''179'')
         \<or> (\<exists>nd e2. jget (JObj []) ''179'' = Inr nd \<and> jget nd ''inputs'' = Inl e2)" by simp
  have p0: "posted world_three = []" by (simp add: world_three_def demo_world_def)
  from missing_node_fails_batch[OF h1 h2 h3 h4 h5 h6'] p0
  have c: "posted (fst (approve_edit env_empty_template world_three ''t1'' ''ok'')) = []"
    by simp
  have e: "map b_status (comfyui_batches (fst (approve_edit env_empty_template world_three ''t1'' ''ok'')))
        = [''failed'']
     \<and> map b_error_message
        (comfyui_batches (fst (approve_edit env_empty_template world_three ''t1'' ''ok'')))
        = [Some (quoted ''67'')]"
    by code_simp
  show ?thesis using h1 h2 h3 h4 h5 h6 c e by simp
qed

text \<open>
  C6. For every position \<open>k\<close> of the item list (counted from 0, as \<^verbatim>\<open>enumerate\<close> does), the
  upload phase copies the asset of the item at position \<open>k\<close> to
  \<^verbatim>\<open>/workspace/ComfyUI/input/{pose_folder}/pose{k+1}.jpg\<close>, and the job graph posted for
  position \<open>k\<close> binds \<^verbatim>\<open>{pose_folder}/pose{k+1}.jpg\<close> as its pose image: both phases use the
  same position-derived name, in the order of the item list.
\<close>

theorem pose_names_agree:
  assumes "upload_poses env pose_folder 0 items w = (w1, None)"
    and "trigger_workflows env batch_id model_filename pose_folder items w2 = (w3, r)"
    and "k < length items"
  shows "(\<exists>content. get_pose env k (img_url (items ! k)) = Inr content
            \<and> drop (length (render_input w)) (render_input w1) ! k
                = (input_dir @ pose_folder @ ''/'' @ (''pose'' @ str_nat (k + 1)) @ ''.jpg'',
                   content))
       \<and> (k < length (posted w3) - length (posted w2) \<longrightarrow>
            (\<exists>workflow. drop (length (posted w2)) (posted w3) ! k = JObj [(''prompt'', workflow)]
               \<and> jslot workflow ''179'' ''image''
                   = Inr (jstr (pose_folder @ ''/'' @ (''pose'' @ str_nat (k + 1)) @ ''.jpg''))))
       \<and> (\<forall>prompt_ids. r = Inr prompt_ids \<longrightarrow>
            length (posted w3) - length (posted w2) = length items)"
proof (intro conjI impI allI)
  from upload_poses_files[OF assms(1)] assms(3)
  show "\<exists>content. get_pose env k (img_url (items ! k)) = Inr content
            \<and> drop (length (render_input w)) (render_input w1) ! k
                = (input_dir @ pose_folder @ ''/'' @ (''pose'' @ str_nat (k + 1)) @ ''.jpg'',
                   content)"
    by (auto simp: pose_name_def)
next
  assume lt: "k < length (posted w3) - length (posted w2)"
  from trigger_workflows_posted[OF assms(2)] obtain new where
    p: "posted w3 = posted w2 @ new"
    and g: "\<forall>j < length new. \<exists>g. new ! j = JObj [(''prompt'', g)]
            \<and> jinstantiate (case load_template env of Inr d \<Rightarrow> d | Inl e \<Rightarrow> JObj [])
                 model_filename pose_folder j (randint env j) batch_id = Inr g"
    by blast
  from lt p have "k < length new" by simp
  with g obtain wf' where n: "new ! k = JObj [(''prompt'', wf')]"
    and ji: "jinstantiate (case load_template env of Inr d \<Rightarrow> d | Inl e \<Rightarrow> JObj [])
                 model_filename pose_folder k (randint env k) batch_id = Inr wf'"
    by blast
  from jinstantiate_slots(3)[OF ji] n p
  show "\<exists>workflow. drop (length (posted w2)) (posted w3) ! k = JObj [(''prompt'', workflow)]
               \<and> jslot workflow ''179'' ''image''
                   = Inr (jstr (pose_folder @ ''/'' @ (''pose'' @ str_nat (k + 1)) @ ''.jpg''))"
    by (simp add: pose_name_def jstr_def)
next
  fix prompt_ids assume "r = Inr prompt_ids"
  with trigger_workflows_posted[OF assms(2)]
  show "length (posted w3) - length (posted w2) = length items" by auto
qed

theorem pose_names_agree_witness:
  "upload_poses env_no_id ''pose_4e5f6a7b'' 0 [demo_image ''i1'' 1, demo_image ''i2'' 2]
       (demo_world [])
     = (fst (upload_poses env_no_id ''pose_4e5f6a7b'' 0 [demo_image ''i1'' 1, demo_image ''i2'' 2]
          (demo_world [])), None)
   \<and> (1 :: nat) < length [demo_image ''i1'' 1, demo_image ''i2'' 2]
   \<and> 1 < length (posted (fst (trigger_workflows env_no_id ''b1'' ''model_0a1b2c3d.jpg''
            ''pose_4e5f6a7b'' [demo_image ''i1'' 1, demo_image ''i2'' 2] (demo_world []))))
          - length (posted (demo_world []))
   \<and> (\<exists>content. get_pose env_no_id 1 (img_url ([demo_image ''i1'' 1, demo_image ''i2'' 2] ! 1))
                    = Inr content
            \<and> drop (length (render_input (demo_world [])))
                 (render_input (fst (upload_poses env_no_id ''pose_4e5f6a7b'' 0
                    [demo_image ''i1'' 1, demo_image ''i2'' 2] (demo_world [])))) ! 1
                = (input_dir @ ''pose_4e5f6a7b'' @ ''/'' @ (''pose'' @ str_nat (1 + 1)) @ ''.jpg'',
                   content))
   \<and> (\<exists>workflow. drop (length (posted (demo_world [])))
          (posted (fst (trigger_workflows env_no_id ''b1'' ''model_0a1b2c3d.jpg''
            ''pose_4e5f6a7b'' [demo_image ''i1'' 1, demo_image ''i2'' 2] (demo_world [])))) ! 1
          = JObj [(''prompt'', workflow)]
        \<and> jslot workflow ''179'' ''image''
            = Inr (jstr (''pose_4e5f6a7b'' @ ''/'' @ (''pose'' @ str_nat (1 + 1)) @ ''.jpg'')))
   \<and> input_dir @ ''pose_4e5f6a7b'' @ ''/'' @ (''pose'' @ str_nat (1 + 1)) @ ''.jpg''
        = ''/workspace/ComfyUI/input/pose_4e5f6a7b/pose2.jpg''"
proof -
  let ?items = "[demo_image ''i1'' 1, demo_image ''i2'' 2]"
  let ?up = "upload_poses env_no_id ''pose_4e5f6a7b'' 0 ?items (demo_world [])"
  let ?tr = "trigger_workflows env_no_id ''b1'' ''model_0a1b2c3d.jpg''
            ''pose_4e5f6a7b'' ?items (demo_world [])"
  have sn: "snd ?up = None" by code_simp
  have h1: "?up = (fst ?up, None)"
    by (rule prod_eqI) (simp_all only: fst_conv snd_conv sn)
  have h2: "?tr = (fst ?tr, snd ?tr)" by (rule prod.collapse[symmetric])
  have h3: "(1 :: nat) < length ?items" by simp
  have h4: "1 < length (posted (fst ?tr)) - length (posted (demo_world []))" by code_simp
  note t = pose_names_agree[OF h1 h2 h3]
  note c1 = t[THEN conjunct1]
  note c2 = t[THEN conjunct2, THEN conjunct1, THEN mp, OF h4]
  have n: "input_dir @ ''pose_4e5f6a7b'' @ ''/'' @ (''pose'' @ str_nat (1 + 1)) @ ''.jpg''
        = ''/workspace/ComfyUI/input/pose_4e5f6a7b/pose2.jpg''" by code_simp
  show ?thesis by (rule conjI[OF h1 conjI[OF h3 conjI[OF h4 conjI[OF c1 conjI[OF c2 n]]]]])
qed

text \<open>
  C9. The completion loop enumerates the list of recorded job identifiers, so the number in the
  name it downloads (\<^verbatim>\<open>{batch_id}_pose{n}_00001_.png\<close>) and in the storage path
  (\<^verbatim>\<open>pose_transfers/{batch_id}_pose{n}.png\<close>) is the index \<open>i\<close> of the job in that list plus
  one. The job at index \<open>i\<close> was submitted for the item at position \<open>p\<close>, the \<open>i\<close>-th position
  whose submission returned an identifier, and its graph was told to write under
  \<^verbatim>\<open>{batch_id}_pose{p+1}\<close>. Always \<open>i \<le> p\<close>, with equality exactly when every earlier
  submission returned an identifier; when some earlier one did not, \<open>i < p\<close>.
\<close>

theorem download_number_is_submission_index:
  assumes "snd (trigger_workflows env batch_id model_filename pose_folder items w) = Inr prompt_ids"
    and "i < length prompt_ids"
    and "p = filter (\<lambda>k. job_id (post_prompt env k) \<noteq> None) [0..<length items] ! i"
  shows "prompt_ids = map (\<lambda>k. the (job_id (post_prompt env k)))
             (filter (\<lambda>k. job_id (post_prompt env k) \<noteq> None) [0..<length items])
       \<and> p < length items \<and> post_prompt env p = PostId (prompt_ids ! i)
       \<and> (\<exists>workflow.
             drop (length (posted w))
               (posted (fst (trigger_workflows env batch_id model_filename pose_folder items w))) ! p
               = JObj [(''prompt'', workflow)]
             \<and> jslot workflow ''94'' ''filename_prefix''
                 = Inr (jstr (batch_id @ ''_pose'' @ str_nat (p + 1))))
       \<and> view_requests (fst (collect_results env batch_id (length prompt_ids) 0 prompt_ids [] w2))
           = view_requests w2
             @ map (\<lambda>j. COMFYUI_API_URL @ ''/api/view?filename='' @ batch_id @ ''_pose''
                        @ str_nat (j + 1) @ ''_00001_.png'' @ ''&type=output&subfolder='')
                 (filter (\<lambda>j. truthy (job_output env j (prompt_ids ! j))) [0..<length prompt_ids])
       \<and> map fst (bucket (fst (collect_results env batch_id (length prompt_ids) 0 prompt_ids [] w2)))
           = map fst (bucket w2)
             @ map (\<lambda>j. ''pose_transfers/'' @ batch_id @ ''_pose'' @ str_nat (j + 1) @ ''.png'')
                 (filter (\<lambda>j. truthy (job_output env j (prompt_ids ! j)) \<and> stores env batch_id j)
                    [0..<length prompt_ids])
       \<and> i \<le> p
       \<and> (i = p) = (\<forall>q < p. job_id (post_prompt env q) \<noteq> None)
       \<and> ((\<exists>q < p. job_id (post_prompt env q) = None) \<longrightarrow> i < p)"
proof -
  let ?ok = "\<lambda>k. job_id (post_prompt env k) \<noteq> None"
  let ?tr = "trigger_workflows env batch_id model_filename pose_folder items w"
  let ?co = "collect_results env batch_id (length prompt_ids) 0 prompt_ids [] w2"
  define pos where "pos = filter ?ok [0..<length items]"
  have tr: "?tr = (fst ?tr, Inr prompt_ids)"
    by (rule prod_eqI) (simp_all only: fst_conv snd_conv assms(1))
  from trigger_workflows_posted[OF tr] obtain new where
    n1: "posted (fst ?tr) = posted w @ new"
    and n2: "\<forall>j < length new. \<exists>g. new ! j = JObj [(''prompt'', g)]
            \<and> jinstantiate (case load_template env of Inr d \<Rightarrow> d | Inl e \<Rightarrow> JObj [])
                 model_filename pose_folder j (randint env j) batch_id = Inr g"
    and n3: "length new = length items"
    and n4: "prompt_ids = List.map_filter (\<lambda>k. job_id (post_prompt env k)) [0..<length items]"
    by blast
  have ids: "prompt_ids = map (\<lambda>k. the (job_id (post_prompt env k))) pos"
    unfolding n4 pos_def List.map_filter_def by (simp add: comp_def)
  then have len: "length pos = length prompt_ids" by simp
  have il: "i < length (filter ?ok [0..<length items])"
    using assms(2) len unfolding pos_def by simp
  have pp: "p = pos ! i" unfolding pos_def by (rule assms(3))
  from filter_upt_index[OF il] have p1: "p < length items" and p2: "?ok p"
    unfolding assms(3) by simp_all
  have "prompt_ids ! i = the (job_id (post_prompt env p))"
    unfolding ids pp using assms(2) len by simp
  with p2 have p3: "post_prompt env p = PostId (prompt_ids ! i)"
    by (cases "post_prompt env p") simp_all
  from p1 n3 have "p < length new" by simp
  with n2 obtain g where g1: "new ! p = JObj [(''prompt'', g)]"
    and g2: "jinstantiate (case load_template env of Inr d \<Rightarrow> d | Inl e \<Rightarrow> JObj [])
                 model_filename pose_folder p (randint env p) batch_id = Inr g"
    by blast
  have g3: "jslot g ''94'' ''filename_prefix'' = Inr (jstr (batch_id @ ''_pose'' @ str_nat (p + 1)))"
    using jinstantiate_slots(5)[OF g2] by (simp add: pose_name_def jstr_def)
  have g4: "drop (length (posted w)) (posted (fst ?tr)) ! p = JObj [(''prompt'', g)]"
    unfolding n1 using g1 by simp
  have p4: "\<exists>workflow. drop (length (posted w)) (posted (fst ?tr)) ! p = JObj [(''prompt'', workflow)]
             \<and> jslot workflow ''94'' ''filename_prefix''
                 = Inr (jstr (batch_id @ ''_pose'' @ str_nat (p + 1)))"
    using g3 g4 by blast
  have vu: "view_url batch_id = (\<lambda>j. COMFYUI_API_URL @ ''/api/view?filename='' @ batch_id @ ''_pose''
                        @ str_nat (j + 1) @ ''_00001_.png'' @ ''&type=output&subfolder='')"
    by (rule ext) (simp add: view_url_def pose_name_def)
  have sp: "storage_path_of batch_id
      = (\<lambda>j. ''pose_transfers/'' @ batch_id @ ''_pose'' @ str_nat (j + 1) @ ''.png'')"
    by (rule ext) (simp add: storage_path_of_def pose_name_def)
  from collect_results_files[of env batch_id "length prompt_ids" 0 prompt_ids "[]" w2]
  have c0: "view_requests (fst ?co)
     = view_requests w2 @ map (view_url batch_id)
         (filter (\<lambda>j. truthy (job_output env j (prompt_ids ! j))) [0..<length prompt_ids])
   \<and> map fst (bucket (fst ?co))
     = map fst (bucket w2) @ map (storage_path_of batch_id)
         (filter (\<lambda>j. truthy (job_output env j (prompt_ids ! j)) \<and> stores env batch_id j)
            [0..<length prompt_ids])"
    by simp
  have c1: "view_requests (fst ?co)
           = view_requests w2
             @ map (\<lambda>j. COMFYUI_API_URL @ ''/api/view?filename='' @ batch_id @ ''_pose''
                        @ str_nat (j + 1) @ ''_00001_.png'' @ ''&type=output&subfolder='')
                 (filter (\<lambda>j. truthy (job_output env j (prompt_ids ! j))) [0..<length prompt_ids])"
    using c0[THEN conjunct1] unfolding vu .
  have c2: "map fst (bucket (fst ?co))
           = map fst (bucket w2)
             @ map (\<lambda>j. ''pose_transfers/'' @ batch_id @ ''_pose'' @ str_nat (j + 1) @ ''.png'')
                 (filter (\<lambda>j. truthy (job_output env j (prompt_ids ! j)) \<and> stores env batch_id j)
                    [0..<length prompt_ids])"
    using c0[THEN conjunct2] unfolding sp .
  have q1: "i \<le> p" unfolding assms(3) by (rule filter_upt_position(1)[OF il])
  have q2: "(i = p) = (\<forall>q < p. job_id (post_prompt env q) \<noteq> None)"
    unfolding assms(3) by (rule filter_upt_position(2)[OF il])
  have q3: "(\<exists>q < p. job_id (post_prompt env q) = None) \<longrightarrow> i < p"
    using q1 q2 by (cases "i = p") auto
  from ids[unfolded pos_def] p1 p3 p4 c1 c2 q1 q2 q3 show ?thesis
    by (intro conjI)
qed

theorem download_number_is_submission_index_witness:
  "snd (trigger_workflows env_no_id ''b1'' ''model_0a1b2c3d.jpg'' ''pose_4e5f6a7b''
          [demo_image ''i1'' 1, demo_image ''i2'' 2] (demo_world [])) = Inr [''p2'']
   \<and> (0 :: nat) < length [''p2'']
   \<and> (1 :: nat) = filter (\<lambda>k. job_id (post_prompt env_no_id k) \<noteq> None)
                     [0..<length [demo_image ''i1'' 1, demo_image ''i2'' 2]] ! 0
   \<and> job_id (post_prompt env_no_id 0) = None
   \<and> post_prompt env_no_id 1 = PostId ''p2''
   \<and> (\<exists>workflow.
         drop (length (posted (demo_world [])))
           (posted (fst (trigger_workflows env_no_id ''b1'' ''model_0a1b2c3d.jpg''
              ''pose_4e5f6a7b'' [demo_image ''i1'' 1, demo_image ''i2'' 2] (demo_world [])))) ! 1
           = JObj [(''prompt'', workflow)]
         \<and> jslot workflow ''94'' ''filename_prefix'' = Inr (jstr ''b1_pose2''))
   \<and> view_requests (fst (collect_results env_no_id ''b1'' (length [''p2'']) 0 [''p2''] []
          (demo_world [])))
       = [COMFYUI_API_URL @ ''/api/view?filename=b1_pose1_00001_.png&type=output&subfolder='']
   \<and> map fst (bucket (fst (collect_results env_no_id ''b1'' (length [''p2'']) 0 [''p2''] []
          (demo_world []))))
       = [''pose_transfers/b1_pose1.png'']"
proof -
  let ?items = "[demo_image ''i1'' 1, demo_image ''i2'' 2]"
  have h1: "snd (trigger_workflows env_no_id ''b1'' ''model_0a1b2c3d.jpg'' ''pose_4e5f6a7b''
          ?items (demo_world [])) = Inr [''p2'']"
    by code_simp
  have h2: "(0 :: nat) < length [''p2'']" by simp
  have h3: "(1 :: nat) = filter (\<lambda>k. job_id (post_prompt env_no_id k) \<noteq> None)
                     [0..<length ?items] ! 0"
    by code_simp
  have h4: "job_id (post_prompt env_no_id 0) = None" by code_simp
  note t = download_number_is_submission_index[where env = env_no_id and batch_id = "''b1''"
      and model_filename = "''model_0a1b2c3d.jpg''" and pose_folder = "''pose_4e5f6a7b''"
      and items = ?items and w = "demo_world []" and prompt_ids = "[''p2'']" and i = 0
      and p = 1 and ?w2.0 = "demo_world []", OF h1 h2 h3]
  note t3 = t[THEN conjunct2, THEN conjunct2, THEN conjunct1]
  note t4 = t[THEN conjunct2, THEN conjunct2, THEN conjunct2, THEN conjunct1]
  note t5 = t[THEN conjunct2, THEN conjunct2, THEN conjunct2, THEN conjunct2, THEN conjunct1]
  note t6 = t[THEN conjunct2, THEN conjunct2, THEN conjunct2, THEN conjunct2, THEN conjunct2,
      THEN conjunct1]
  have c3: "post_prompt env_no_id 1 = PostId ''p2''" using t3 by simp
  have n: "''b1'' @ ''_pose'' @ str_nat (1 + 1) = ''b1_pose2''" by code_simp
  note c4 = t4[unfolded n]
  have r5: "view_requests (demo_world [])
             @ map (\<lambda>j. COMFYUI_API_URL @ ''/api/view?filename='' @ ''b1'' @ ''_pose''
                        @ str_nat (j + 1) @ ''_00001_.png'' @ ''&type=output&subfolder='')
                 (filter (\<lambda>j. truthy (job_output env_no_id j ([''p2''] ! j))) [0..<length [''p2'']])
       = [COMFYUI_API_URL @ ''/api/view?filename=b1_pose1_00001_.png&type=output&subfolder='']"
    by code_simp
  have r6: "map fst (bucket (demo_world []))
             @ map (\<lambda>j. ''pose_transfers/'' @ ''b1'' @ ''_pose'' @ str_nat (j + 1) @ ''.png'')
                 (filter (\<lambda>j. truthy (job_output env_no_id j ([''p2''] ! j))
                              \<and> stores env_no_id ''b1'' j)
                    [0..<length [''p2'']])
       = [''pose_transfers/b1_pose1.png'']"
    by code_simp
  note c5 = trans[OF t5 r5]
  note c6 = trans[OF t6 r6]
  show ?thesis
    by (rule conjI[OF h1 conjI[OF h2 conjI[OF h3 conjI[OF h4 conjI[OF c3 conjI[OF c4
          conjI[OF c5 c6]]]]]]])
qed

text \<open>
  C8. The two download paths choose the output file differently. In the batch run, when the
  status query of the job at index \<open>idx\<close> yields a filename, whatever it is, the file requested is
  \<^verbatim>\<open>{batch_id}_pose{idx+1}_00001_.png\<close>, through \<^verbatim>\<open>/api/view\<close>; nothing is copied by the name the
  status query returned. In the single pose transfer, the file copied is
  \<^verbatim>\<open>/workspace/ComfyUI/output/{output_filename}\<close> for exactly the filename the status query
  returned, and \<^verbatim>\<open>/api/view\<close> is not used. (The result of the single poller does not depend on
  the state it starts from, so its hypothesis is stated for any state.)
\<close>

theorem output_file_selection:
  assumes "fst (snd (poll_job env idx prompt_id 0 (say w (LogPolling (idx + 1) n_jobs prompt_id))))
             = Some output_filename"
    and "output_filename \<noteq> []"
    and "snd (pt_upload_inputs penv pw model_image_url pose_image_url)
           = Inr (model_filename, pose_filename)"
    and "pt_submit penv (workflow_payload model_filename pose_filename (pt_job_id penv)
            (pt_timestamp penv) prompt) = Inr pt_prompt_id"
    and "snd (pt_poll penv pt_prompt_id 0 pw') = Inr (Some pt_output_filename)"
    and "pt_output_filename \<noteq> []"
  shows "(\<exists>later.
            view_requests (fst (collect_results env batch_id n_jobs idx (prompt_id # rest)
                                  completed_images w))
              = view_requests w
                @ (COMFYUI_API_URL @ ''/api/view?filename='' @ batch_id @ ''_pose''
                     @ str_nat (idx + 1) @ ''_00001_.png'' @ ''&type=output&subfolder='') # later)
       \<and> scp_fetched (fst (collect_results env batch_id n_jobs idx (prompt_id # rest)
                              completed_images w)) = scp_fetched w
       \<and> scp_fetched (fst (pose_transfer_run penv pw model_image_url pose_image_url prompt))
           = scp_fetched pw @ [''/workspace/ComfyUI/output/'' @ pt_output_filename]
       \<and> view_requests (fst (pose_transfer_run penv pw model_image_url pose_image_url prompt))
           = view_requests pw"
proof -
  have vu: "view_url batch_id idx = COMFYUI_API_URL @ ''/api/view?filename='' @ batch_id @ ''_pose''
                     @ str_nat (idx + 1) @ ''_00001_.png'' @ ''&type=output&subfolder=''"
    by (simp add: view_url_def pose_name_def)
  have b1: "\<exists>later.
            view_requests (fst (collect_results env batch_id n_jobs idx (prompt_id # rest)
                                  completed_images w))
              = view_requests w
                @ (COMFYUI_API_URL @ ''/api/view?filename='' @ batch_id @ ''_pose''
                     @ str_nat (idx + 1) @ ''_00001_.png'' @ ''&type=output&subfolder='') # later"
    using collect_results_first_request[OF assms(1,2), of batch_id rest completed_images]
    unfolding vu .
  have b2: "scp_fetched (fst (collect_results env batch_id n_jobs idx (prompt_id # rest)
                              completed_images w)) = scp_fetched w"
    by (rule collect_results_scp_fetched)
  let ?up = "pt_upload_inputs penv pw model_image_url pose_image_url"
  define w1 where "w1 = fst ?up"
  have up: "?up = (w1, Inr (model_filename, pose_filename))"
    unfolding w1_def by (rule prod_eqI) (simp_all only: fst_conv snd_conv assms(3))
  have f1: "scp_fetched w1 = scp_fetched pw" "view_requests w1 = view_requests pw"
    unfolding w1_def using pt_upload_inputs_frame[of penv pw model_image_url pose_image_url]
    by simp_all
  define payload where "payload = workflow_payload model_filename pose_filename (pt_job_id penv)
            (pt_timestamp penv) prompt"
  define w2 where "w2 = say (say (w1\<lparr>posted := posted w1 @ [payload]\<rparr>)
                              (LogPtTriggered pt_prompt_id)) LogPtWaiting"
  have f2: "scp_fetched w2 = scp_fetched pw" "view_requests w2 = view_requests pw"
    unfolding w2_def using f1 by (simp_all add: say_def)
  define w3 where "w3 = fst (pt_poll penv pt_prompt_id 0 w2)"
  have "snd (pt_poll penv pt_prompt_id 0 w2) = Inr (Some pt_output_filename)"
    using pt_poll_world[of penv pt_prompt_id 0 w2 pw', THEN conjunct1] assms(5) by simp
  then have po: "pt_poll penv pt_prompt_id 0 w2 = (w3, Inr (Some pt_output_filename))"
    unfolding w3_def by (simp add: prod_eq_iff)
  have f3: "scp_fetched w3 = scp_fetched pw" "view_requests w3 = view_requests pw"
    unfolding w3_def using pt_poll_world[of penv pt_prompt_id 0 w2, THEN conjunct2] f2
    by simp_all
  have run: "pose_transfer_run penv pw model_image_url pose_image_url prompt
           = pt_retrieve penv pt_prompt_id pt_output_filename w3"
    unfolding pose_transfer_run_def up prod.case sum.case Let_def
      assms(4)[unfolded payload_def[symmetric]] payload_def[symmetric]
      po[unfolded w2_def] option.case
    using assms(6) by simp
  have s1: "scp_fetched (fst (pose_transfer_run penv pw model_image_url pose_image_url prompt))
           = scp_fetched pw @ [''/workspace/ComfyUI/output/'' @ pt_output_filename]"
    unfolding run using pt_retrieve_frame[of penv pt_prompt_id pt_output_filename w3] f3
    by simp
  have s2: "view_requests (fst (pose_transfer_run penv pw model_image_url pose_image_url prompt))
           = view_requests pw"
    unfolding run using pt_retrieve_frame[of penv pt_prompt_id pt_output_filename w3] f3
    by simp
  from b1 b2 s1 s2 show ?thesis by (intro conjI)
qed

theorem output_file_selection_witness:
  "fst (snd (poll_job env_done 0 ''p1'' 0 (say (demo_world []) (LogPolling (0 + 1) 1 ''p1''))))
     = Some ''ComfyUI_00001_.png''
   \<and> ''ComfyUI_00001_.png'' \<noteq> []
   \<and> snd (pt_upload_inputs demo_pt_env (demo_world []) ''https://img.example/model.jpg''
            ''https://img.example/pose.jpg'')
       = Inr (''model_0a1b2c3d.jpg'', ''pose_0a1b2c3d.jpg'')
   \<and> pt_submit demo_pt_env (workflow_payload ''model_0a1b2c3d.jpg'' ''pose_0a1b2c3d.jpg''
          (pt_job_id demo_pt_env) (pt_timestamp demo_pt_env) default_prompt) = Inr (Some ''p1'')
   \<and> snd (pt_poll demo_pt_env (Some ''p1'') 0 (demo_world [])) = Inr (Some ''ComfyUI_00001_.png'')
   \<and> (\<exists>later.
         view_requests (fst (collect_results env_done ''b1'' 1 0 [''p1''] [] (demo_world [])))
           = view_requests (demo_world [])
             @ (COMFYUI_API_URL @ ''/api/view?filename='' @ ''b1'' @ ''_pose''
                  @ str_nat (0 + 1) @ ''_00001_.png'' @ ''&type=output&subfolder='') # later)
   \<and> view_requests (fst (collect_results env_done ''b1'' 1 0 [''p1''] [] (demo_world [])))
       = [COMFYUI_API_URL @ ''/api/view?filename=b1_pose1_00001_.png&type=output&subfolder='']
   \<and> scp_fetched (fst (collect_results env_done ''b1'' 1 0 [''p1''] [] (demo_world []))) = []
   \<and> scp_fetched (fst (pose_transfer_run demo_pt_env (demo_world [])
          ''https://img.example/model.jpg'' ''https://img.example/pose.jpg'' default_prompt))
       = [''/workspace/ComfyUI/output/ComfyUI_00001_.png'']
   \<and> view_requests (fst (pose_transfer_run demo_pt_env (demo_world [])
          ''https://img.example/model.jpg'' ''https://img.example/pose.jpg'' default_prompt))
       = []"
proof -
  have h1: "fst (snd (poll_job env_done 0 ''p1'' 0
        (say (demo_world []) (LogPolling (0 + 1) 1 ''p1''))))
     = Some ''ComfyUI_00001_.png''"
    by code_simp
  have h2: "''ComfyUI_00001_.png'' \<noteq> []" by simp
  have h3: "snd (pt_upload_inputs demo_pt_env (demo_world []) ''https://img.example/model.jpg''
            ''https://img.example/pose.jpg'')
       = Inr (''model_0a1b2c3d.jpg'', ''pose_0a1b2c3d.jpg'')"
    by code_simp
  have h4: "pt_submit demo_pt_env (workflow_payload ''model_0a1b2c3d.jpg'' ''pose_0a1b2c3d.jpg''
          (pt_job_id demo_pt_env) (pt_timestamp demo_pt_env) default_prompt) = Inr (Some ''p1'')"
    by (simp add: demo_pt_env_def)
  have h5: "snd (pt_poll demo_pt_env (Some ''p1'') 0 (demo_world []))
       = Inr (Some ''ComfyUI_00001_.png'')"
    by code_simp
  note t = output_file_selection[where env = env_done and idx = 0 and prompt_id = "''p1''"
      and w = "demo_world []" and n_jobs = 1 and output_filename = "''ComfyUI_00001_.png''"
      and penv = demo_pt_env and pw = "demo_world []"
      and model_image_url = "''https://img.example/model.jpg''"
      and pose_image_url = "''https://img.example/pose.jpg''"
      and model_filename = "''model_0a1b2c3d.jpg''" and pose_filename = "''pose_0a1b2c3d.jpg''"
      and prompt = default_prompt and pt_prompt_id = "Some ''p1''" and pw' = "demo_world []"
      and pt_output_filename = "''ComfyUI_00001_.png''" and batch_id = "''b1''" and rest = "[]"
      and completed_images = "[]", OF h1 h2 h3 h4 h5 h2]
  note t1 = t[THEN conjunct1]
  note t2 = t[THEN conjunct2, THEN conjunct1]
  note t3 = t[THEN conjunct2, THEN conjunct2, THEN conjunct1]
  note t4 = t[THEN conjunct2, THEN conjunct2, THEN conjunct2]
  have e: "scp_fetched (demo_world []) = []" "view_requests (demo_world []) = []"
    by (simp_all add: demo_world_def)
  have r3: "scp_fetched (demo_world []) @ [''/workspace/ComfyUI/output/'' @ ''ComfyUI_00001_.png'']
          = [''/workspace/ComfyUI/output/ComfyUI_00001_.png'']"
    by (simp add: e)
  have c1: "view_requests (fst (collect_results env_done ''b1'' 1 0 [''p1''] [] (demo_world [])))
       = [COMFYUI_API_URL @ ''/api/view?filename=b1_pose1_00001_.png&type=output&subfolder='']"
    by code_simp
  note c2 = trans[OF t2 e(1)]
  note c3 = trans[OF t3 r3]
  note c4 = trans[OF t4 e(2)]
  show ?thesis
    by (rule conjI[OF h1 conjI[OF h2 conjI[OF h3 conjI[OF h4 conjI[OF h5 conjI[OF t1
          conjI[OF c1 conjI[OF c2 conjI[OF c3 c4]]]]]]]]])
qed

end
